theory Spec2Isabelle
  imports Complex_Main "HOL-Library.Code_Target_Nat"
begin

section \<open>Python values, errors and dictionaries\<close>

text \<open>
  The values that flow through the decorators of
  \<^verbatim>\<open>src/pipelinex/decorators/decorators.py\<close>: \<^verbatim>\<open>None\<close>, unbounded integers, strings,
  lists and tuples. A tuple is the only value for which \<^verbatim>\<open>isinstance(v, tuple)\<close> holds.
\<close>

datatype pyval =
    PNone
  | PInt int
  | PStr string
  | PList "pyval list"
  | PTuple "pyval list"

text \<open>
  The exceptions the modelled code can raise by itself, and \<open>Raised\<close> for whatever the
  wrapped callable raises on its own account.
\<close>

datatype py_error =
    IndexError
  | KeyError
  | TypeError
  | UnboundLocalError
  | ImportError
  | AttributeError
  | Raised string

text \<open>
  A \<^verbatim>\<open>dict\<close> keeps its keys in insertion order, so it is an association list; a
  well-formed one has no key twice. \<^verbatim>\<open>d[k] = v\<close> overwrites in place or appends.
\<close>

type_synonym 'k pydict = "('k \<times> pyval) list"

definition dict_keys :: "'k pydict \<Rightarrow> 'k list" where
  "dict_keys d = map fst d"

definition dict_values :: "'k pydict \<Rightarrow> pyval list" where
  "dict_values d = map snd d"

fun dict_set :: "'k pydict \<Rightarrow> 'k \<Rightarrow> pyval \<Rightarrow> 'k pydict" where
  "dict_set [] k v = [(k, v)]"
| "dict_set ((k', v') # d) k v =
     (if k' = k then (k', v) # d else (k', v') # dict_set d k v)"

text \<open>\<^verbatim>\<open>e.get(key)\<close>: the stored value, or \<^verbatim>\<open>None\<close> when the key is missing.\<close>

definition dict_get :: "'k pydict \<Rightarrow> 'k \<Rightarrow> pyval" where
  "dict_get e k = (case map_of e k of None \<Rightarrow> PNone | Some v \<Rightarrow> v)"

text \<open>\<^verbatim>\<open>d[key]\<close>: the stored value, or \<^verbatim>\<open>KeyError\<close> when the key is missing.\<close>

definition dict_getitem :: "'k pydict \<Rightarrow> 'k \<Rightarrow> py_error + pyval" where
  "dict_getitem d k = (case map_of d k of None \<Rightarrow> Inl KeyError | Some v \<Rightarrow> Inr v)"

text \<open>\<^verbatim>\<open>dict(pairs)\<close>: the pairs are stored one after the other.\<close>

definition dict_of_pairs :: "('k \<times> pyval) list \<Rightarrow> 'k pydict" where
  "dict_of_pairs ps = foldl (\<lambda>d (k, v). dict_set d k v) [] ps"

text \<open>\<^verbatim>\<open>isinstance(v, tuple)\<close>.\<close>

fun is_tuple :: "pyval \<Rightarrow> bool" where
  "is_tuple (PTuple _) = True"
| "is_tuple _ = False"

text \<open>
  \<^verbatim>\<open>iter(v)\<close> as the list of items it yields: a string yields its characters as
  one-character strings; \<^verbatim>\<open>None\<close> and integers are not iterable.
\<close>

fun py_iter :: "pyval \<Rightarrow> py_error + pyval list" where
  "py_iter (PTuple xs) = Inr xs"
| "py_iter (PList xs) = Inr xs"
| "py_iter (PStr s) = Inr (map (\<lambda>c. PStr [c]) s)"
| "py_iter PNone = Inl TypeError"
| "py_iter (PInt _) = Inl TypeError"

text \<open>
  \<^verbatim>\<open>zip(*iterables)\<close>: every argument is turned into an iterator first (the first one
  that is not iterable raises \<^verbatim>\<open>TypeError\<close>); then one tuple is produced per round
  until some iterator is exhausted. No argument at all gives nothing.
\<close>

fun iter_all :: "pyval list \<Rightarrow> py_error + pyval list list" where
  "iter_all [] = Inr []"
| "iter_all (v # vs) =
     (case py_iter v of
        Inl e \<Rightarrow> Inl e
      | Inr xs \<Rightarrow> (case iter_all vs of Inl e \<Rightarrow> Inl e | Inr xss \<Rightarrow> Inr (xs # xss)))"

function zip_star :: "'a list list \<Rightarrow> 'a list list" where
  "zip_star xss =
     (if xss = [] \<or> [] \<in> set xss then []
      else map hd xss # zip_star (map tl xss))"
  by pat_completeness auto
termination
proof (relation "measure (\<lambda>xss. length (hd xss))")
  fix xss :: "'a list list"
  assume "\<not> (xss = [] \<or> [] \<in> set xss)"
  then have "xss \<noteq> []" and "hd xss \<noteq> []"
    by (cases xss; auto)+
  then show "(map tl xss, xss) \<in> measure (\<lambda>xss. length (hd xss))"
    by (simp add: hd_map)
qed simp

declare zip_star.simps [simp del]

section \<open>Floating-point numbers\<close>

text \<open>
  Python's \<^verbatim>\<open>float\<close> is the IEEE 754 binary64 format. A finite float is modelled by its
  exact value, a rational number; infinities and NaN do not arise from the operations
  below on finite arguments of the sizes a clock returns, and are left out. Every
  arithmetic operation computes the exact result and rounds it to the nearest float,
  ties to the even significand.
\<close>

type_synonym pyfloat = rat

text \<open>Rounding to the nearest integer, ties to even.\<close>

definition round_half_even :: "rat \<Rightarrow> int" where
  "round_half_even x =
     (if x - of_int \<lfloor>x\<rfloor> < 1 / 2 then \<lfloor>x\<rfloor>
      else if 1 / 2 < x - of_int \<lfloor>x\<rfloor> then \<lfloor>x\<rfloor> + 1
      else if even \<lfloor>x\<rfloor> then \<lfloor>x\<rfloor> else \<lfloor>x\<rfloor> + 1)"

text \<open>
  Rounding a non-negative number to 53 significant bits. A number below \<open>2 ^ 52\<close> is
  doubled until its integer part has 53 bits, at most 1074 times (below that the floats
  are subnormal, all multiples of \<open>1 / 2 ^ 1074\<close>); a number from \<open>2 ^ 53\<close> on is halved
  first. The scaled number is rounded to an integer and scaled back.
\<close>

function round_scaled :: "int \<Rightarrow> rat \<Rightarrow> rat" where
  "round_scaled e x =
     (if x < 2 ^ 52 \<and> - 1074 < e then round_scaled (e - 1) (2 * x) / 2
      else of_int (round_half_even x))"
  by pat_completeness auto
termination
  by (relation "measure (\<lambda>(e, x). nat (e + 1074))") auto

declare round_scaled.simps [simp del]

function round_magnitude :: "rat \<Rightarrow> rat" where
  "round_magnitude x =
     (if 2 ^ 53 \<le> x then 2 * round_magnitude (x / 2) else round_scaled 0 x)"
  by pat_completeness auto
termination
proof (relation "measure (\<lambda>x. nat \<lfloor>x\<rfloor>)")
  fix x :: rat
  assume "2 ^ 53 \<le> x"
  then have "2 \<le> x" by simp
  then have "x / 2 \<le> x - 1" by simp
  moreover have "of_int \<lfloor>x / 2\<rfloor> \<le> x / 2" and "x - 1 < of_int \<lfloor>x\<rfloor>"
    by linarith+
  ultimately have "(of_int \<lfloor>x / 2\<rfloor> :: rat) < of_int \<lfloor>x\<rfloor>" by linarith
  then have "\<lfloor>x / 2\<rfloor> < \<lfloor>x\<rfloor>" by simp
  moreover from \<open>2 \<le> x\<close> have "0 < \<lfloor>x\<rfloor>" by linarith
  ultimately show "(x / 2, x) \<in> measure (\<lambda>x. nat \<lfloor>x\<rfloor>)" by simp
qed simp

declare round_magnitude.simps [simp del]

text \<open>The float nearest to a number; also how a literal such as \<^verbatim>\<open>0.4\<close> is read.\<close>

definition round_double :: "rat \<Rightarrow> pyfloat" where
  "round_double x = (if x < 0 then - round_magnitude (- x) else round_magnitude x)"

definition float_add :: "pyfloat \<Rightarrow> pyfloat \<Rightarrow> pyfloat" where
  "float_add a b = round_double (a + b)"

definition float_sub :: "pyfloat \<Rightarrow> pyfloat \<Rightarrow> pyfloat" where
  "float_sub a b = round_double (a - b)"

definition float_mul :: "pyfloat \<Rightarrow> pyfloat \<Rightarrow> pyfloat" where
  "float_mul a b = round_double (a * b)"

definition float_div :: "pyfloat \<Rightarrow> pyfloat \<Rightarrow> pyfloat" where
  "float_div a b = round_double (a / b)"

text \<open>\<^verbatim>\<open>int(x)\<close> of a float: towards zero.\<close>

definition int_of_float :: "rat \<Rightarrow> int" where
  "int_of_float x = (if x < 0 then - \<lfloor>- x\<rfloor> else \<lfloor>x\<rfloor>)"

text \<open>C's \<^verbatim>\<open>fmod\<close>: the remainder with the sign of the dividend; it is exact.\<close>

definition fmod :: "pyfloat \<Rightarrow> pyfloat \<Rightarrow> pyfloat" where
  "fmod vx wx = vx - wx * of_int (int_of_float (vx / wx))"

text \<open>
  \<^verbatim>\<open>divmod(vx, wx)\<close> on floats, as the interpreter computes it for a divisor other than
  zero (the divisor is the constant 60 in this module):
  \<^verbatim>\<open>
  mod = fmod(vx, wx)
  div = (vx - mod) / wx
  if mod:
      if (wx < 0) != (mod < 0): mod += wx; div -= 1.0
  else: mod = copysign(0.0, wx)
  if div:
      floordiv = floor(div)
      if div - floordiv > 0.5: floordiv += 1.0
  else: floordiv = copysign(0.0, vx / wx)
  return floordiv, mod
  \<close>
  The difference \<open>div - floordiv\<close> is a fraction of \<open>div\<close> and needs no rounding.
\<close>

definition float_divmod :: "pyfloat \<Rightarrow> pyfloat \<Rightarrow> pyfloat \<times> pyfloat" where
  "float_divmod vx wx =
     (let mod0 = fmod vx wx;
          div0 = float_div (float_sub vx mod0) wx;
          adjust = (mod0 \<noteq> 0 \<and> ((wx < 0) \<noteq> (mod0 < 0)));
          mod1 = (if adjust then float_add mod0 wx else mod0);
          div1 = (if adjust then float_sub div0 1 else div0);
          floordiv =
            (if div1 \<noteq> 0
             then (if 1 / 2 < div1 - of_int \<lfloor>div1\<rfloor>
                   then float_add (of_int \<lfloor>div1\<rfloor>) 1 else of_int \<lfloor>div1\<rfloor>)
             else 0)
      in (floordiv, mod1))"

section \<open>Formatting with \<^verbatim>\<open>%\<close>\<close>

text \<open>The decimal numeral of a natural number, and the character of one digit.\<close>

definition digit :: "nat \<Rightarrow> char" where
  "digit n = ''0123456789'' ! n"

function dec :: "nat \<Rightarrow> string" where
  "dec n = (if n < 10 then [digit n] else dec (n div 10) @ [digit (n mod 10)])"
  by pat_completeness auto
termination
  by (relation "measure id") auto

declare dec.simps [simp del]

text \<open>
  \<^verbatim>\<open>"%d" % x\<close> (width 0) and \<^verbatim>\<open>"%02d" % x\<close> (width 2) for a float \<open>x\<close>: the float is
  truncated to an integer, and the numeral is filled with zeros after the sign up to
  the width.
\<close>

definition fmt_d :: "nat \<Rightarrow> pyfloat \<Rightarrow> string" where
  "fmt_d width x =
     (let n = int_of_float x;
          sign = (if n < 0 then ''-'' else '''');
          digits = dec (nat \<bar>n\<bar>)
      in sign @ replicate (width - length sign - length digits) CHR ''0'' @ digits)"

text \<open>
  \<^verbatim>\<open>"%.2f" % x\<close> (precision 2) and \<^verbatim>\<open>"%.0f" % x\<close> (precision 0): the exact value of the
  float is rounded to that many decimal places, ties to even.
\<close>

definition fmt_f :: "nat \<Rightarrow> pyfloat \<Rightarrow> string" where
  "fmt_f prec x =
     (let n = nat (round_half_even (\<bar>x\<bar> * 10 ^ prec));
          sign = (if x < 0 then ''-'' else '''');
          frac = dec (n mod 10 ^ prec)
      in sign @ dec (n div 10 ^ prec) @
         (if prec = 0 then '''' else ''.'' @ replicate (prec - length frac) CHR ''0'' @ frac))"

text \<open>A number below 100 written with exactly two digits.\<close>

definition two_digits :: "nat \<Rightarrow> string" where
  "two_digits n = [digit (n div 10), digit (n mod 10)]"

section \<open>The timing decorator\<close>

text \<open>
  \<^verbatim>\<open>
  def _human_readable_time(elapsed: float):
      mins, secs = divmod(elapsed, 60)
      hours, mins = divmod(mins, 60)
      if hours > 0:
          message = "%dh%02dm%02ds" % (hours, mins, secs)
      elif mins > 0:
          message = "%dm%02ds" % (mins, secs)
      elif secs >= 1:
          message = "%.2fs" % secs
      else:
          message = "%.0fms" % (secs * 1000.0)
      return message
  \<close>
\<close>

definition human_readable_time :: "pyfloat \<Rightarrow> string" where
  "human_readable_time elapsed =
     (let (mins, secs) = float_divmod elapsed 60;
          (hours, mins) = float_divmod mins 60
      in if 0 < hours then fmt_d 0 hours @ ''h'' @ fmt_d 2 mins @ ''m'' @ fmt_d 2 secs @ ''s''
         else if 0 < mins then fmt_d 0 mins @ ''m'' @ fmt_d 2 secs @ ''s''
         else if 1 \<le> secs then fmt_f 2 secs @ ''s''
         else fmt_f 0 (float_mul secs 1000) @ ''ms'')"

text \<open>
  The records of the module's logger, each kept as the values its text is formatted
  from: \<^verbatim>\<open>"Running %r took %s [%.3fs]"\<close> with the name, the rendered duration and the
  elapsed seconds, and \<^verbatim>\<open>"{}: {}".format(key, out)\<close> of the row/column adapter.
\<close>

datatype 'k log_record =
    Info_took string string pyfloat
  | Info_key_out 'k pyval

text \<open>
  What a call can read and change: the wall clock that \<^verbatim>\<open>time.time()\<close> reads, and the
  log. A callable takes its arguments and the world, and returns its value or the
  exception it raises, with the world it leaves behind.
\<close>

record 'k world =
  clock :: pyfloat
  records :: "'k log_record list"

record ('a, 'r, 'k) pyfunc =
  qualname :: "string option"
  repr :: string
  call :: "'a \<Rightarrow> 'k world \<Rightarrow> (py_error + 'r) \<times> 'k world"

text \<open>\<^verbatim>\<open>getattr(func, "__qualname__", repr(func))\<close>\<close>

definition func_full_name :: "('a, 'r, 'k) pyfunc \<Rightarrow> string" where
  "func_full_name func = (case qualname func of Some q \<Rightarrow> q | None \<Rightarrow> repr func)"

text \<open>
  \<^verbatim>\<open>
  def with_time(*args, **kwargs):
      t_start = time.time()
      result = func(*args, **kwargs)
      t_end = time.time()
      elapsed = t_end - t_start
      log.info("Running %r took %s [%.3fs]",
               _func_full_name(func), _human_readable_time(elapsed), elapsed)
      return result
  \<close>
  \<open>log_time func\<close> is the function \<^verbatim>\<open>with_time\<close>; an exception of \<open>func\<close> leaves it at
  the call.
\<close>

definition log_time ::
  "('a, 'r, 'k) pyfunc \<Rightarrow> 'a \<Rightarrow> 'k world \<Rightarrow> (py_error + 'r) \<times> 'k world" where
  "log_time func args w =
     (let t_start = clock w
      in case call func args w of
           (Inl e, w1) \<Rightarrow> (Inl e, w1)
         | (Inr result, w1) \<Rightarrow>
             (let t_end = clock w1;
                  elapsed = float_sub t_end t_start
              in (Inr result,
                  w1\<lparr>records := records w1 @
                    [Info_took (func_full_name func) (human_readable_time elapsed) elapsed]\<rparr>)))"

section \<open>Loading the module\<close>

text \<open>
  What the module binds at its top level when it is imported, statement by statement:
  imports, one assignment, function definitions, and the definitions under
  \<^verbatim>\<open>if find_spec("memory_profiler"):\<close>. The environment says which packages
  \<^verbatim>\<open>find_spec\<close> discovers and which imports succeed; a failing import ends the loading
  with \<^verbatim>\<open>ImportError\<close>. A \<^verbatim>\<open>def\<close> binds its name and runs nothing of the body; the body of
  \<open>mem_profile\<close> calls \<^verbatim>\<open>memory_usage\<close> of the external package and is not modelled.
\<close>

datatype stmt =
    Import string
  | Import_from string "string list"
  | Assign string
  | Def string
  | If_find_spec string "stmt list"

record py_env =
  find_spec :: "string \<Rightarrow> bool"
  importable :: "string \<Rightarrow> bool"

fun exec_stmt :: "py_env \<Rightarrow> stmt \<Rightarrow> string list \<Rightarrow> py_error + string list"
  and exec_block :: "py_env \<Rightarrow> stmt list \<Rightarrow> string list \<Rightarrow> py_error + string list" where
  "exec_stmt env (Import m) ns = (if importable env m then Inr (ns @ [m]) else Inl ImportError)"
| "exec_stmt env (Import_from m names) ns =
     (if importable env m then Inr (ns @ names) else Inl ImportError)"
| "exec_stmt env (Assign x) ns = Inr (ns @ [x])"
| "exec_stmt env (Def f) ns = Inr (ns @ [f])"
| "exec_stmt env (If_find_spec m body) ns =
     (if find_spec env m then exec_block env body ns else Inr ns)"
| "exec_block env [] ns = Inr ns"
| "exec_block env (s # ss) ns =
     (case exec_stmt env s ns of Inl e \<Rightarrow> Inl e | Inr ns' \<Rightarrow> exec_block env ss ns')"

text \<open>The top level of \<^verbatim>\<open>decorators.py\<close>, lines 1 to 127.\<close>

definition decorators_module :: "stmt list" where
  "decorators_module =
     [Import_from ''importlib.util'' [''find_spec''],
      Import ''logging'',
      Import ''time'',
      Import_from ''functools'' [''wraps''],
      Import_from ''typing'' [''Callable''],
      Assign ''log'',
      Def ''_func_full_name'',
      Def ''_human_readable_time'',
      Def ''log_time'',
      If_find_spec ''memory_profiler''
        [Import_from ''memory_profiler'' [''memory_usage''],
         Def ''mem_profile''],
      Def ''dict_of_list_to_list_of_dict'',
      Def ''dict_io'']"

definition load_module :: "py_env \<Rightarrow> py_error + string list" where
  "load_module env = exec_block env decorators_module []"

text \<open>
  Reaching a name of the loaded module (\<^verbatim>\<open>decorators.mem_profile\<close>): a name that is not
  bound raises \<^verbatim>\<open>AttributeError\<close>.
\<close>

definition module_getattr :: "string list \<Rightarrow> string \<Rightarrow> py_error + string" where
  "module_getattr ns name = (if name \<in> set ns then Inr name else Inl AttributeError)"

text \<open>The modules of the standard library that the module imports.\<close>

definition standard_library :: "string list" where
  "standard_library = [''importlib.util'', ''logging'', ''time'', ''functools'', ''typing'']"

section \<open>The row/column adapter\<close>

text \<open>
  \<^verbatim>\<open>
  def dict_of_list_to_list_of_dict(dict_of_list):
      return [
          dict(zip(dict_of_list.keys(), vals)) for vals in zip(*dict_of_list.values())
      ]
  \<close>
\<close>

definition dict_of_list_to_list_of_dict :: "'k pydict \<Rightarrow> py_error + 'k pydict list" where
  "dict_of_list_to_list_of_dict dict_of_list =
     (case iter_all (dict_values dict_of_list) of
        Inl e \<Rightarrow> Inl e
      | Inr xss \<Rightarrow>
          Inr (map (\<lambda>vals. dict_of_pairs (zip (dict_keys dict_of_list) vals)) (zip_star xss)))"

text \<open>What \<^verbatim>\<open>_dict_io\<close> returns: the mapping, or a tuple of mappings.\<close>

datatype 'k adapted_result =
    Out_dict "'k pydict"
  | Out_tuple "'k pydict list"

text \<open>The wrapped callable takes its positional arguments as a list and may raise.\<close>

type_synonym callable = "pyval list \<Rightarrow> py_error + pyval"

text \<open>\<^verbatim>\<open>a = [e.get(key) for e in args]\<close>\<close>

definition row :: "'k pydict list \<Rightarrow> 'k \<Rightarrow> pyval list" where
  "row args key = map (\<lambda>e. dict_get e key) args"

text \<open>
  The loop
  \<^verbatim>\<open>
  for key in keys:
      a = [e.get(key) for e in args]
      out = func(*a)
      out_dict[key] = out
      log.info("{}: {}".format(key, out))
  \<close>
  over the keys still to be processed. Its state is \<open>out_dict\<close>, the loop variable
  \<open>key\<close> (unbound until the first round) and the log. An exception of \<open>func\<close> leaves
  the loop at once, with the log as it is by then.
\<close>

fun dict_io_loop ::
  "callable \<Rightarrow> 'k pydict list \<Rightarrow> 'k list \<Rightarrow> 'k pydict \<times> 'k option \<times> 'k log_record list \<Rightarrow>
   (py_error + 'k pydict \<times> 'k option) \<times> 'k log_record list" where
  "dict_io_loop func args [] (out_dict, key, lg) = (Inr (out_dict, key), lg)"
| "dict_io_loop func args (k # ks) (out_dict, key, lg) =
     (case func (row args k) of
        Inl e \<Rightarrow> (Inl e, lg)
      | Inr out \<Rightarrow>
          dict_io_loop func args ks (dict_set out_dict k out, Some k, lg @ [Info_key_out k out]))"

text \<open>
  \<^verbatim>\<open>
  def _dict_io(*args):
      keys = args[0].keys()
      out_dict = {}
      for key in keys: ...
      if isinstance(out_dict[key], tuple):
          return tuple(dict_of_list_to_list_of_dict(out_dict))
      else:
          return out_dict
  \<close>
  \<^verbatim>\<open>args[0]\<close> raises \<^verbatim>\<open>IndexError\<close> without arguments; \<^verbatim>\<open>out_dict[key]\<close> raises
  \<^verbatim>\<open>UnboundLocalError\<close> when the loop never bound \<open>key\<close>.
\<close>

definition dict_io ::
  "callable \<Rightarrow> 'k pydict list \<Rightarrow> 'k log_record list \<Rightarrow> (py_error + 'k adapted_result) \<times> 'k log_record list" where
  "dict_io func args lg =
     (case args of
        [] \<Rightarrow> (Inl IndexError, lg)
      | d # _ \<Rightarrow>
          (case dict_io_loop func args (dict_keys d) ([], None, lg) of
             (Inl e, lg') \<Rightarrow> (Inl e, lg')
           | (Inr (out_dict, None), lg') \<Rightarrow> (Inl UnboundLocalError, lg')
           | (Inr (out_dict, Some key), lg') \<Rightarrow>
               (case dict_getitem out_dict key of
                  Inl e \<Rightarrow> (Inl e, lg')
                | Inr v \<Rightarrow>
                    (if is_tuple v
                     then (case dict_of_list_to_list_of_dict out_dict of
                             Inl e \<Rightarrow> (Inl e, lg')
                           | Inr ds \<Rightarrow> (Inr (Out_tuple ds), lg'))
                     else (Inr (Out_dict out_dict), lg')))))"

subsection \<open>Callables used as examples\<close>

text \<open>
  Python's \<^verbatim>\<open>+\<close> and \<^verbatim>\<open>* n\<close> on the values above, and the three callables
  \<^verbatim>\<open>lambda x: (x, x * 2)\<close>, \<^verbatim>\<open>lambda x: x * 2\<close> and \<^verbatim>\<open>lambda x, y: x + y\<close>. A call
  with the wrong number of arguments raises \<^verbatim>\<open>TypeError\<close>.
\<close>

fun py_add :: "pyval \<Rightarrow> pyval \<Rightarrow> py_error + pyval" where
  "py_add (PInt a) (PInt b) = Inr (PInt (a + b))"
| "py_add (PStr a) (PStr b) = Inr (PStr (a @ b))"
| "py_add (PList a) (PList b) = Inr (PList (a @ b))"
| "py_add (PTuple a) (PTuple b) = Inr (PTuple (a @ b))"
| "py_add _ _ = Inl TypeError"

fun py_mul_int :: "pyval \<Rightarrow> int \<Rightarrow> py_error + pyval" where
  "py_mul_int (PInt a) n = Inr (PInt (a * n))"
| "py_mul_int (PStr a) n = Inr (PStr (concat (replicate (nat n) a)))"
| "py_mul_int (PList a) n = Inr (PList (concat (replicate (nat n) a)))"
| "py_mul_int (PTuple a) n = Inr (PTuple (concat (replicate (nat n) a)))"
| "py_mul_int PNone n = Inl TypeError"

fun pair_with_double :: callable where
  "pair_with_double [x] =
     (case py_mul_int x 2 of Inl e \<Rightarrow> Inl e | Inr y \<Rightarrow> Inr (PTuple [x, y]))"
| "pair_with_double _ = Inl TypeError"

fun double :: callable where
  "double [x] = py_mul_int x 2"
| "double _ = Inl TypeError"

fun add2 :: callable where
  "add2 [x, y] = py_add x y"
| "add2 _ = Inl TypeError"

text \<open>
  \<^verbatim>\<open>lambda x: x if x == 1 else (x, x)\<close> and \<^verbatim>\<open>lambda x: (x, x)\<close>: they agree on every
  argument but \<^verbatim>\<open>1\<close>.
\<close>

fun scalar_or_pair :: callable where
  "scalar_or_pair [x] = (if x = PInt 1 then Inr x else Inr (PTuple [x, x]))"
| "scalar_or_pair _ = Inl TypeError"

fun pair_twice :: callable where
  "pair_twice [x] = Inr (PTuple [x, x])"
| "pair_twice _ = Inl TypeError"

section \<open>Facts about rounding and \<open>divmod\<close>\<close>

lemma round_scaled_step:
  "x < 2 ^ 52 \<Longrightarrow> - 1074 < e \<Longrightarrow> round_scaled e x = round_scaled (e - 1) (2 * x) / 2"
  by (subst round_scaled.simps) simp

lemma round_scaled_stop:
  "\<not> (x < 2 ^ 52 \<and> - 1074 < e) \<Longrightarrow> round_scaled e x = of_int (round_half_even x)"
  by (subst round_scaled.simps) (simp only: if_False)

lemma round_magnitude_step:
  "2 ^ 53 \<le> x \<Longrightarrow> round_magnitude x = 2 * round_magnitude (x / 2)"
  by (subst round_magnitude.simps) simp

lemma round_magnitude_stop:
  "\<not> 2 ^ 53 \<le> x \<Longrightarrow> round_magnitude x = round_scaled 0 x"
  by (subst round_magnitude.simps) (simp only: if_False)

lemma round_half_even_of_int: "round_half_even (of_int n) = n"
  by (simp add: round_half_even_def)

lemma round_half_even_ge: "of_int c \<le> x \<Longrightarrow> c \<le> round_half_even x"
proof -
  assume "of_int c \<le> x"
  then have "c \<le> \<lfloor>x\<rfloor>" by (simp add: le_floor_iff)
  then show ?thesis by (simp add: round_half_even_def)
qed

lemma round_scaled_Ints: "x \<in> \<int> \<Longrightarrow> round_scaled e x = x"
proof (induction e x rule: round_scaled.induct)
  case (1 e x)
  from "1.prems" obtain n where x: "x = of_int n" by (auto elim: Ints_cases)
  show ?case
  proof (cases "x < 2 ^ 52 \<and> - 1074 < e")
    case True
    from "1.prems" have "2 * x \<in> \<int>" by (simp add: x)
    with "1.IH" [OF True] have "round_scaled (e - 1) (2 * x) = 2 * x" .
    moreover from True have "round_scaled e x = round_scaled (e - 1) (2 * x) / 2"
      by (intro round_scaled_step) simp_all
    ultimately show ?thesis by simp
  next
    case False
    show ?thesis
      unfolding round_scaled_stop [OF False]
      by (simp only: x round_half_even_of_int)
  qed
qed

lemma round_scaled_of_int: "round_scaled e (of_int n) = of_int n"
  by (rule round_scaled_Ints) simp

lemma round_scaled_ge: "of_int c \<le> x \<Longrightarrow> of_int c \<le> round_scaled e x"
proof (induction e x arbitrary: c rule: round_scaled.induct)
  case (1 e x)
  show ?case
  proof (cases "x < 2 ^ 52 \<and> - 1074 < e")
    case True
    from "1.prems" have "of_int (2 * c) \<le> 2 * x" by simp
    with "1.IH" [OF True] have "of_int (2 * c) \<le> round_scaled (e - 1) (2 * x)" .
    moreover from True have "round_scaled e x = round_scaled (e - 1) (2 * x) / 2"
      by (intro round_scaled_step) simp_all
    ultimately show ?thesis by simp
  next
    case False
    from "1.prems" have "c \<le> round_half_even x" by (rule round_half_even_ge)
    then have "(of_int c :: rat) \<le> of_int (round_half_even x)"
      by (simp only: of_int_le_iff)
    then show ?thesis
      by (simp only: round_scaled_stop [OF False])
  qed
qed

lemma round_magnitude_big: "2 ^ 52 \<le> x \<Longrightarrow> 2 ^ 52 \<le> round_magnitude x"
proof (induction x rule: round_magnitude.induct)
  case (1 x)
  show ?case
  proof (cases "2 ^ 53 \<le> x")
    case True
    then have "2 ^ 52 \<le> x / 2" by simp
    with "1.IH" [OF True] have "2 ^ 52 \<le> round_magnitude (x / 2)" .
    with True show ?thesis
      by (simp add: round_magnitude_step)
  next
    case False
    from "1.prems" have "of_int (2 ^ 52) \<le> x" by simp
    then have "of_int (2 ^ 52) \<le> round_scaled 0 x" by (rule round_scaled_ge)
    with False show ?thesis
      by (simp add: round_magnitude_stop)
  qed
qed

lemma round_double_of_int:
  assumes "0 \<le> n" and "n < 2 ^ 53"
  shows "round_double (of_int n) = of_int n"
proof -
  from assms(2) have "(of_int n :: rat) < of_int (2 ^ 53)"
    by (simp only: of_int_less_iff)
  then have big: "\<not> 2 ^ 53 \<le> (of_int n :: rat)" by simp
  have "round_magnitude (of_int n) = of_int n"
    by (simp only: round_magnitude_stop [OF big] round_scaled_of_int)
  with assms(1) show ?thesis
    by (simp add: round_double_def)
qed

lemma round_double_ge:
  assumes "0 \<le> c" and "c \<le> 2 ^ 53" and "of_int c \<le> x"
  shows "of_int c \<le> round_double x"
proof -
  from assms(1,3) have x0: "0 \<le> x"
    by (meson of_int_0_le_iff order_trans)
  show ?thesis
  proof (cases "2 ^ 53 \<le> x")
    case True
    then have "2 ^ 52 \<le> x / 2" by simp
    then have "2 ^ 52 \<le> round_magnitude (x / 2)" by (rule round_magnitude_big)
    with True have "2 ^ 53 \<le> round_magnitude x"
      by (simp add: round_magnitude_step)
    moreover from assms(2) have "(of_int c :: rat) \<le> of_int (2 ^ 53)"
      by (simp only: of_int_le_iff)
    ultimately show ?thesis using x0 by (simp add: round_double_def)
  next
    case False
    from assms(3) have "of_int c \<le> round_scaled 0 x" by (rule round_scaled_ge)
    with False x0 show ?thesis
      by (simp add: round_double_def round_magnitude_stop)
  qed
qed


lemma floor_div_60: "\<lfloor>x / 60 :: rat\<rfloor> = \<lfloor>x\<rfloor> div 60"
proof (rule floor_unique)
  let ?n = "\<lfloor>x\<rfloor>"
  have n: "of_int ?n \<le> x" "x < of_int ?n + 1" by linarith+
  have "60 * (?n div 60) \<le> ?n" by presburger
  then have "(of_int (60 * (?n div 60)) :: rat) \<le> of_int ?n"
    by (simp only: of_int_le_iff)
  then have a: "60 * (of_int (?n div 60) :: rat) \<le> of_int ?n" by simp
  have "?n + 1 \<le> 60 * (?n div 60) + 60" by presburger
  then have "(of_int (?n + 1) :: rat) \<le> of_int (60 * (?n div 60) + 60)"
    by (simp only: of_int_le_iff)
  then have b: "(of_int ?n :: rat) + 1 \<le> 60 * of_int (?n div 60) + 60" by simp
  from a n(1) have "60 * of_int (?n div 60) \<le> x" by linarith
  then show "of_int (?n div 60) \<le> x / 60" by simp
  from b n(2) have "x < 60 * of_int (?n div 60) + 60" by linarith
  then show "x / 60 < of_int (?n div 60) + 1" by simp
qed

lemma fmod_60:
  assumes "0 \<le> x"
  shows "fmod x 60 = x - 60 * of_int (\<lfloor>x\<rfloor> div 60)"
proof -
  from assms have "\<not> x / 60 < 0" by simp
  then show ?thesis
    by (simp add: fmod_def int_of_float_def floor_div_60)
qed

lemma fmod_60_bounds:
  assumes "0 \<le> x"
  shows "0 \<le> fmod x 60" and "fmod x 60 < 60"
    and "\<lfloor>fmod x 60\<rfloor> = \<lfloor>x\<rfloor> mod 60"
proof -
  let ?n = "\<lfloor>x\<rfloor>"
  have n: "of_int ?n \<le> x" "x < of_int ?n + 1" by linarith+
  have eq: "fmod x 60 = x - of_int (60 * (?n div 60))"
    using assms by (simp add: fmod_60)
  have fl: "\<lfloor>fmod x 60\<rfloor> = ?n - 60 * (?n div 60)"
    unfolding eq by (simp only: floor_diff_of_int)
  also have "\<dots> = ?n mod 60" by presburger
  finally show m: "\<lfloor>fmod x 60\<rfloor> = ?n mod 60" .
  have "0 \<le> ?n mod 60" and "?n mod 60 < 60" by simp_all
  with m have "0 \<le> \<lfloor>fmod x 60\<rfloor>" and "\<lfloor>fmod x 60\<rfloor> < 60" by simp_all
  then show "0 \<le> fmod x 60" and "fmod x 60 < 60"
    by (simp_all add: floor_less_iff)
qed


lemma float_divmod_60:
  assumes "0 \<le> x"
  shows "float_divmod x 60 =
           (let q = float_div (float_sub x (fmod x 60)) 60
            in (if q \<noteq> 0
                then (if 1 / 2 < q - of_int \<lfloor>q\<rfloor> then round_double (of_int \<lfloor>q\<rfloor> + 1)
                      else of_int \<lfloor>q\<rfloor>)
                else 0,
                fmod x 60))"
proof -
  from assms have "\<not> fmod x 60 < 0"
    using fmod_60_bounds(1) [of x] by simp
  then show ?thesis
    by (simp add: float_divmod_def Let_def float_add_def)
qed

lemma quotient_60:
  assumes "0 \<le> x"
  shows "float_div (float_sub x (fmod x 60)) 60 =
           round_double (round_double (of_int (60 * (\<lfloor>x\<rfloor> div 60))) / 60)"
proof -
  have "x - fmod x 60 = of_int (60 * (\<lfloor>x\<rfloor> div 60))"
    using assms by (simp add: fmod_60)
  then show ?thesis
    by (simp only: float_div_def float_sub_def)
qed

lemma int_div_60_bounds:
  fixes n :: int
  assumes "0 \<le> n"
  shows "0 \<le> n div 60" and "n div 60 \<le> n" and "0 \<le> 60 * (n div 60)"
    and "60 * (n div 60) \<le> n"
  using assms by presburger+

lemma quotient_60_exact:
  assumes "0 \<le> x" and "x < 2 ^ 53"
  shows "float_div (float_sub x (fmod x 60)) 60 = of_int (\<lfloor>x\<rfloor> div 60)"
proof -
  let ?n = "\<lfloor>x\<rfloor>"
  from assms have n: "0 \<le> ?n" "?n < 2 ^ 53"
    by (simp_all add: floor_less_iff)
  with int_div_60_bounds [of ?n]
  have "0 \<le> 60 * (?n div 60)" and "60 * (?n div 60) < 2 ^ 53"
    and "0 \<le> ?n div 60" and "?n div 60 < 2 ^ 53"
    by linarith+
  then have "round_double (of_int (60 * (?n div 60))) = of_int (60 * (?n div 60))"
    and "round_double (of_int (?n div 60)) = of_int (?n div 60)"
    by (simp_all only: round_double_of_int)
  then show ?thesis
    by (simp add: quotient_60 [OF assms(1)])
qed

lemma quotient_60_ge:
  assumes "0 \<le> k" and "k \<le> 2 ^ 47" and "of_int (60 * k) \<le> x"
  shows "of_int k \<le> float_div (float_sub x (fmod x 60)) 60"
proof -
  let ?n = "\<lfloor>x\<rfloor>"
  from assms have x0: "0 \<le> x"
    by (meson mult_nonneg_nonneg of_int_0_le_iff order_trans zero_le_numeral)
  from assms(3) have "60 * k \<le> ?n" by (simp only: le_floor_iff)
  then have "60 * k \<le> 60 * (?n div 60)" by presburger
  then have "(of_int (60 * k) :: rat) \<le> of_int (60 * (?n div 60))"
    by (simp only: of_int_le_iff)
  moreover from assms(1,2) have "0 \<le> 60 * k" and "60 * k \<le> 2 ^ 53" by simp_all
  ultimately have "of_int (60 * k) \<le> round_double (of_int (60 * (?n div 60)))"
    by (intro round_double_ge)
  then have "of_int k \<le> round_double (of_int (60 * (?n div 60))) / 60"
    by simp
  moreover from assms(2) have "k \<le> 2 ^ 53" by simp
  ultimately show ?thesis
    unfolding quotient_60 [OF x0] using assms(1) by (intro round_double_ge)
qed

lemma float_divmod_60_exact:
  assumes "0 \<le> x" and "x < 2 ^ 53"
  shows "float_divmod x 60 = (of_int (\<lfloor>x\<rfloor> div 60), fmod x 60)"
  by (simp add: float_divmod_60 [OF assms(1)] quotient_60_exact [OF assms] Let_def)

lemma float_divmod_60_ge:
  assumes "0 \<le> k" and "k \<le> 2 ^ 47" and "of_int (60 * k) \<le> x"
  shows "of_int k \<le> fst (float_divmod x 60)"
proof -
  define q where "q = float_div (float_sub x (fmod x 60)) 60"
  from assms have x0: "0 \<le> x"
    by (meson mult_nonneg_nonneg of_int_0_le_iff order_trans zero_le_numeral)
  have q: "of_int k \<le> q" unfolding q_def using assms by (rule quotient_60_ge)
  then have fl: "k \<le> \<lfloor>q\<rfloor>" by (simp only: le_floor_iff)
  have dm: "fst (float_divmod x 60) =
      (if q \<noteq> 0
       then (if 1 / 2 < q - of_int \<lfloor>q\<rfloor> then round_double (of_int \<lfloor>q\<rfloor> + 1)
             else of_int \<lfloor>q\<rfloor>)
       else 0)"
    by (simp add: float_divmod_60 [OF x0] q_def Let_def)
  show ?thesis
  proof (cases "q = 0")
    case True
    with q show ?thesis by (simp add: dm)
  next
    case False
    from fl have "of_int k \<le> (of_int \<lfloor>q\<rfloor> :: rat)" by (simp only: of_int_le_iff)
    moreover from this have "of_int k \<le> (of_int \<lfloor>q\<rfloor> :: rat) + 1" by simp
    then have "of_int k \<le> round_double (of_int \<lfloor>q\<rfloor> + 1)"
      using assms(1,2) by (intro round_double_ge) simp_all
    ultimately show ?thesis using False
      by (simp add: dm)
  qed
qed

text \<open>Rules to evaluate the rounding of a given number.\<close>

lemma floor_rat_numeral_div:
  "\<lfloor>numeral a / numeral b :: rat\<rfloor> = numeral a div numeral b"
  by (metis floor_divide_of_int_eq of_int_numeral)

lemmas round_double_eval =
  round_double_def round_magnitude.simps round_scaled.simps round_half_even_def
  floor_rat_numeral_div

section \<open>Facts about formatting\<close>

lemma dec_one_digit: "n < 10 \<Longrightarrow> dec n = [digit n]"
  by (subst dec.simps) simp

lemma dec_two_digits: "10 \<le> n \<Longrightarrow> n < 100 \<Longrightarrow> dec n = [digit (n div 10), digit (n mod 10)]"
proof -
  assume a: "10 \<le> n" "n < 100"
  then have "n div 10 < 10" by simp
  then have "dec (n div 10) = [digit (n div 10)]" by (rule dec_one_digit)
  with a show ?thesis by (subst dec.simps) simp
qed

lemma pad_two_digits:
  assumes "n < 100"
  shows "replicate (2 - length (dec n)) CHR ''0'' @ dec n = two_digits n"
proof (cases "n < 10")
  case True
  then have "digit (n div 10) = CHR ''0''" by (simp add: digit_def)
  with True show ?thesis by (simp add: dec_one_digit two_digits_def)
next
  case False
  with assms show ?thesis by (simp add: dec_two_digits two_digits_def)
qed

lemma fmt_d_plain: "0 \<le> v \<Longrightarrow> fmt_d 0 v = dec (nat \<lfloor>v\<rfloor>)"
  by (simp add: fmt_d_def int_of_float_def Let_def)

lemma fmt_d_two_digits:
  assumes "0 \<le> v" and "v < 100"
  shows "fmt_d 2 v = two_digits (nat \<lfloor>v\<rfloor>)"
proof -
  from assms have "0 \<le> \<lfloor>v\<rfloor>" and "\<lfloor>v\<rfloor> < 100" by (simp_all add: floor_less_iff)
  then have "nat \<lfloor>v\<rfloor> < 100" by linarith
  then have "replicate (2 - length (dec (nat \<lfloor>v\<rfloor>))) CHR ''0'' @ dec (nat \<lfloor>v\<rfloor>) =
      two_digits (nat \<lfloor>v\<rfloor>)"
    by (rule pad_two_digits)
  with assms(1) \<open>0 \<le> \<lfloor>v\<rfloor>\<close> show ?thesis
    by (simp add: fmt_d_def int_of_float_def Let_def)
qed

lemma fmt_f_two_places:
  assumes "0 \<le> v"
  shows "fmt_f 2 v =
           dec (nat (round_half_even (v * 100)) div 100) @ ''.'' @
           two_digits (nat (round_half_even (v * 100)) mod 100)"
proof -
  let ?c = "nat (round_half_even (v * 100))"
  have "?c mod 100 < 100" by simp
  then have "replicate (2 - length (dec (?c mod 100))) CHR ''0'' @ dec (?c mod 100) =
      two_digits (?c mod 100)"
    by (rule pad_two_digits)
  with assms show ?thesis
    by (simp add: fmt_f_def Let_def)
qed

lemma fmt_f_no_places: "0 \<le> v \<Longrightarrow> fmt_f 0 v = dec (nat (round_half_even v))"
  by (simp add: fmt_f_def Let_def)
section \<open>Facts about the rendering of durations\<close>

lemma human_readable_time_below_minute:
  assumes "0 \<le> x" and "x < 60"
  shows "human_readable_time x =
           (if 1 \<le> x then fmt_f 2 x @ ''s'' else fmt_f 0 (float_mul x 1000) @ ''ms'')"
proof -
  from assms have fl: "0 \<le> \<lfloor>x\<rfloor>" "\<lfloor>x\<rfloor> < 60" by (simp_all add: floor_less_iff)
  then have d: "\<lfloor>x\<rfloor> div 60 = 0" by simp
  from assms have big: "x < 2 ^ 53" by simp
  have 1: "float_divmod x 60 = (0, x)"
    using assms(1) by (simp add: float_divmod_60_exact [OF assms(1) big] d fmod_60)
  have 2: "float_divmod 0 60 = (0, 0)"
    by (simp add: float_divmod_60_exact fmod_60)
  show ?thesis
    by (simp add: human_readable_time_def 1 2)
qed

lemma human_readable_time_below_hour:
  assumes "60 \<le> x" and "x < 3600"
  shows "human_readable_time x =
           dec (nat \<lfloor>x\<rfloor> div 60) @ ''m'' @ two_digits (nat \<lfloor>x\<rfloor> mod 60) @ ''s''"
proof -
  let ?n = "\<lfloor>x\<rfloor>" and ?q = "\<lfloor>x\<rfloor> div 60"
  from assms have x0: "0 \<le> x" and big: "x < 2 ^ 53" by simp_all
  from assms have fl: "60 \<le> ?n" "?n < 3600" by (simp_all add: le_floor_iff floor_less_iff)
  then have q: "1 \<le> ?q" "?q < 60" by presburger+
  have 1: "float_divmod x 60 = (of_int ?q, fmod x 60)"
    by (rule float_divmod_60_exact [OF x0 big])
  from q have q0: "(0 :: rat) \<le> of_int ?q" and qbig: "(of_int ?q :: rat) < 2 ^ 53"
    by simp_all
  from q have "?q div 60 = 0" by simp
  then have 2: "float_divmod (of_int ?q) 60 = (0, of_int ?q)"
    by (simp add: float_divmod_60_exact [OF q0 qbig] fmod_60 [OF q0])
  from q have pos: "(0 :: rat) < of_int ?q" by simp
  have secs: "0 \<le> fmod x 60" "fmod x 60 < 100" "\<lfloor>fmod x 60\<rfloor> = ?n mod 60"
    using fmod_60_bounds [OF x0] by simp_all
  from fl have "nat ?q = nat ?n div 60" and "nat (?n mod 60) = nat ?n mod 60"
    by (simp_all add: nat_div_distrib nat_mod_distrib)
  with pos q0 show ?thesis
    by (simp add: human_readable_time_def 1 2 fmt_d_plain fmt_d_two_digits [OF secs(1,2)] secs(3))
qed

lemma human_readable_time_hours:
  assumes "3600 \<le> x"
  shows "\<exists>h m. 1 \<le> h \<and> m < 60 \<and>
           human_readable_time x =
             dec h @ ''h'' @ two_digits m @ ''m'' @ two_digits (nat \<lfloor>x\<rfloor> mod 60) @ ''s'' \<and>
           (x < 2 ^ 53 \<longrightarrow> h = nat \<lfloor>x\<rfloor> div 3600 \<and> m = nat \<lfloor>x\<rfloor> div 60 mod 60)"
proof -
  let ?n = "\<lfloor>x\<rfloor>"
  obtain mins where mins: "float_divmod x 60 = (mins, fmod x 60)"
    using float_divmod_60 [of x] assms by (simp add: Let_def)
  obtain hours where hours: "float_divmod mins 60 = (hours, fmod mins 60)"
    and mins0: "0 \<le> mins" and hours1: "1 \<le> hours"
  proof -
    from assms have "of_int (60 * 60) \<le> x" by simp
    then have "of_int 60 \<le> fst (float_divmod x 60)"
      by (intro float_divmod_60_ge) simp_all
    with mins have m60: "60 \<le> mins" by simp
    then have m0: "0 \<le> mins" by simp
    from m60 have "of_int (60 * 1) \<le> mins" by simp
    then have "of_int 1 \<le> fst (float_divmod mins 60)"
      by (intro float_divmod_60_ge) simp_all
    then have "1 \<le> fst (float_divmod mins 60)" by simp
    moreover have "snd (float_divmod mins 60) = fmod mins 60"
      using float_divmod_60 [OF m0] by (simp add: Let_def)
    ultimately show ?thesis using that [of "fst (float_divmod mins 60)"] m0
      by (simp add: prod_eq_iff)
  qed
  from assms have x0: "0 \<le> x" by simp
  have secs: "0 \<le> fmod x 60" "fmod x 60 < 100" "\<lfloor>fmod x 60\<rfloor> = ?n mod 60"
    using fmod_60_bounds [OF x0] by simp_all
  have m: "0 \<le> fmod mins 60" "fmod mins 60 < 100" "fmod mins 60 < 60"
    using fmod_60_bounds [OF mins0] by simp_all
  from x0 have n0: "0 \<le> ?n" by simp
  then have s: "nat (?n mod 60) = nat ?n mod 60"
    by (simp add: nat_mod_distrib)
  from hours1 have h0: "0 < hours" "0 \<le> hours" by simp_all
  have out: "human_readable_time x =
      dec (nat \<lfloor>hours\<rfloor>) @ ''h'' @ two_digits (nat \<lfloor>fmod mins 60\<rfloor>) @ ''m'' @
      two_digits (nat ?n mod 60) @ ''s''"
    using h0
    by (simp add: human_readable_time_def mins hours fmt_d_plain
        fmt_d_two_digits [OF secs(1,2)] fmt_d_two_digits [OF m(1,2)] secs(3) s)
  from hours1 have h1: "1 \<le> nat \<lfloor>hours\<rfloor>"
    by (simp add: le_floor_iff le_nat_iff)
  from m have "\<lfloor>fmod mins 60\<rfloor> < 60" by (simp add: floor_less_iff)
  then have m60: "nat \<lfloor>fmod mins 60\<rfloor> < 60" by linarith
  have exact: "nat \<lfloor>hours\<rfloor> = nat ?n div 3600 \<and> nat \<lfloor>fmod mins 60\<rfloor> = nat ?n div 60 mod 60"
    if big: "x < 2 ^ 53"
  proof -
    let ?q = "?n div 60"
    from float_divmod_60_exact [OF x0 big] mins have mq: "mins = of_int ?q" by simp
    from big have "?n < 2 ^ 53" by (simp add: floor_less_iff)
    with n0 int_div_60_bounds [of ?n] have q: "0 \<le> ?q" "?q < 2 ^ 53" by linarith+
    then have q0: "(0 :: rat) \<le> of_int ?q" and qbig: "(of_int ?q :: rat) < 2 ^ 53"
      by simp_all
    from float_divmod_60_exact [OF q0 qbig] hours mq
    have hq: "hours = of_int (?q div 60)" by simp
    have fm: "\<lfloor>fmod mins 60\<rfloor> = ?q mod 60"
      using fmod_60_bounds(3) [OF q0] mq by simp
    have "?q div 60 = ?n div 3600"
      using zdiv_zmult2_eq [of 60 ?n 60] by simp
    with n0 have "nat \<lfloor>hours\<rfloor> = nat ?n div 3600"
      by (simp add: hq nat_div_distrib)
    moreover from n0 q have "nat (?q mod 60) = nat ?n div 60 mod 60"
      by (simp add: nat_mod_distrib nat_div_distrib)
    ultimately show ?thesis by (simp add: fm)
  qed
  from h1 m60 out exact show ?thesis by blast
qed

section \<open>Facts about dictionaries and \<open>zip\<close>\<close>

lemma dict_set_fresh: "k \<notin> fst ` set d \<Longrightarrow> dict_set d k v = d @ [(k, v)]"
  by (induction d) auto

lemma fold_dict_set_fresh:
  "distinct ks \<Longrightarrow> set ks \<inter> fst ` set d = {} \<Longrightarrow>
   fold (\<lambda>k d. dict_set d k (g k)) ks d = d @ map (\<lambda>k. (k, g k)) ks"
proof (induction ks arbitrary: d)
  case Nil
  then show ?case by simp
next
  case (Cons k ks)
  from Cons.prems have fresh: "k \<notin> fst ` set d" by auto
  from Cons.prems have "set ks \<inter> fst ` set (d @ [(k, g k)]) = {}" by auto
  with Cons.IH [of "d @ [(k, g k)]"] Cons.prems fresh show ?case
    by (simp add: dict_set_fresh)
qed

lemma dict_io_loop_all_ok:
  "\<forall>k\<in>set ks. func (row args k) = Inr (g k) \<Longrightarrow>
   dict_io_loop func args ks (out_dict, key, lg) =
     (Inr (fold (\<lambda>k d. dict_set d k (g k)) ks out_dict,
           if ks = [] then key else Some (last ks)),
      lg @ map (\<lambda>k. Info_key_out k (g k)) ks)"
  by (induction ks arbitrary: out_dict key lg) auto

lemma dict_io_loop_first_failure:
  "\<forall>k\<in>set pre. func (row args k) = Inr (g k) \<Longrightarrow> func (row args k) = Inl e \<Longrightarrow>
   dict_io_loop func args (pre @ k # post) (out_dict, key, lg) =
     (Inl e, lg @ map (\<lambda>k. Info_key_out k (g k)) pre)"
  by (induction pre arbitrary: out_dict key lg) auto

lemma dict_getitem_last:
  "ks \<noteq> [] \<Longrightarrow> dict_getitem (map (\<lambda>k. (k, g k)) ks) (last ks) = Inr (g (last ks))"
proof -
  assume "ks \<noteq> []"
  then have "last ks \<in> set ks" by simp
  then have "map_of (map (\<lambda>k. (k, g k)) ks) (last ks) = Some (g (last ks))"
    by (induction ks) auto
  then show ?thesis by (simp add: dict_getitem_def)
qed

lemma map_of_graph:
  "k \<in> set ks \<Longrightarrow> map_of (map (\<lambda>k. (k, g k)) ks) k = Some (g k)"
  by (induction ks) auto

lemma dict_of_pairs_distinct:
  "distinct (map fst ps) \<Longrightarrow> dict_of_pairs ps = ps"
proof -
  have "distinct (map fst ps) \<Longrightarrow> fst ` set d \<inter> fst ` set ps = {} \<Longrightarrow>
        foldl (\<lambda>d (k, v). dict_set d k v) d ps = d @ ps" for d
  proof (induction ps arbitrary: d)
    case Nil
    then show ?case by simp
  next
    case (Cons p ps)
    obtain k v where p: "p = (k, v)" by (cases p)
    from Cons.prems p have fresh: "k \<notin> fst ` set d" by auto
    from Cons.prems p have "fst ` set (d @ [(k, v)]) \<inter> fst ` set ps = {}" by auto
    with Cons.IH [of "d @ [(k, v)]"] Cons.prems p fresh show ?case
      by (simp add: dict_set_fresh)
  qed
  from this [of "[]"] show "distinct (map fst ps) \<Longrightarrow> dict_of_pairs ps = ps"
    by (simp add: dict_of_pairs_def)
qed

lemma length_zip_star:
  "xss \<noteq> [] \<Longrightarrow> length (zip_star xss) = Min (set (map length xss))"
proof (induction xss rule: zip_star.induct)
  case (1 xss)
  show ?case
  proof (cases "[] \<in> set xss")
    case True
    then have "0 \<in> set (map length xss)" by force
    then have "Min (set (map length xss)) = 0"
      by (metis List.finite_set Min_le le_zero_eq)
    with True show ?thesis by (simp add: zip_star.simps)
  next
    case False
    with 1 have IH: "length (zip_star (map tl xss)) = Min (set (map length (map tl xss)))"
      by simp
    have "set (map length (map tl xss)) = (\<lambda>n. n - 1) ` set (map length xss)"
      by (auto simp: image_iff)
    moreover have "Min ((\<lambda>n. n - 1) ` set (map length xss)) = Min (set (map length xss)) - 1"
      using "1.prems" by (intro mono_Min_commute [symmetric]) (auto simp: mono_def)
    moreover have "0 < Min (set (map length xss))"
      using False "1.prems" by (auto simp: Min_gr_iff)
    ultimately show ?thesis using False "1.prems" IH
      by (simp add: zip_star.simps [of xss])
  qed
qed

lemma nth_zip_star:
  "i < length (zip_star xss) \<Longrightarrow> zip_star xss ! i = map (\<lambda>xs. xs ! i) xss"
proof (induction xss arbitrary: i rule: zip_star.induct)
  case (1 xss)
  from "1.prems" have ne: "\<not> (xss = [] \<or> [] \<in> set xss)"
    by (auto simp: zip_star.simps [of xss] split: if_splits)
  show ?case
  proof (cases i)
    case 0
    with ne show ?thesis
      by (simp add: zip_star.simps [of xss]) (metis hd_conv_nth)
  next
    case (Suc j)
    with "1.prems" ne have "j < length (zip_star (map tl xss))"
      by (simp add: zip_star.simps [of xss])
    with 1(1) [OF ne] have "zip_star (map tl xss) ! j = map (\<lambda>xs. xs ! j) (map tl xss)"
      by simp
    moreover have "tl x ! j = x ! Suc j" if "x \<in> set xss" for x
    proof -
      from that ne have "x \<noteq> []" by auto
      then show ?thesis by (cases x) simp_all
    qed
    ultimately show ?thesis using ne Suc
      by (simp add: zip_star.simps [of xss])
  qed
qed


lemma iter_all_map:
  "\<forall>k\<in>set ks. py_iter (g k) = Inr (t k) \<Longrightarrow> iter_all (map g ks) = Inr (map t ks)"
  by (induction ks) auto

lemma py_iter_error: "py_iter v = Inl e \<Longrightarrow> e = TypeError"
  by (cases v) simp_all

lemma iter_all_not_iterable:
  "v \<in> set vs \<Longrightarrow> py_iter v = Inl e \<Longrightarrow> iter_all vs = Inl TypeError"
proof (induction vs)
  case Nil
  then show ?case by simp
next
  case (Cons a vs)
  show ?case
  proof (cases "py_iter a")
    case (Inl e')
    then show ?thesis by (simp add: py_iter_error [OF Inl])
  next
    case (Inr xs)
    with Cons.prems have "v \<in> set vs" by auto
    with Cons.IH Cons.prems(2) have "iter_all vs = Inl TypeError" by simp
    with Inr show ?thesis by simp
  qed
qed

lemma dict_of_list_to_list_of_dict_not_iterable:
  assumes "k \<in> set ks" and "py_iter (g k) = Inl e"
  shows "dict_of_list_to_list_of_dict (map (\<lambda>k. (k, g k)) ks) = Inl TypeError"
proof -
  from assms(1) have "g k \<in> set (dict_values (map (\<lambda>k. (k, g k)) ks))"
    by (simp add: dict_values_def comp_def)
  then have "iter_all (dict_values (map (\<lambda>k. (k, g k)) ks)) = Inl TypeError"
    using assms(2) by (rule iter_all_not_iterable)
  then show ?thesis by (simp add: dict_of_list_to_list_of_dict_def)
qed

lemma zip_star_eq:
  "xss \<noteq> [] \<Longrightarrow>
   zip_star xss = map (\<lambda>i. map (\<lambda>xs. xs ! i) xss) [0..<Min (set (map length xss))]"
  by (rule nth_equalityI) (simp_all add: length_zip_star nth_zip_star)

lemma dict_of_list_to_list_of_dict_iterables:
  assumes "distinct ks" and "ks \<noteq> []"
    and "\<forall>k\<in>set ks. py_iter (g k) = Inr (t k)"
  shows "dict_of_list_to_list_of_dict (map (\<lambda>k. (k, g k)) ks) =
           Inr (map (\<lambda>i. map (\<lambda>k. (k, t k ! i)) ks)
                  [0..<Min ((\<lambda>k. length (t k)) ` set ks)])"
proof -
  let ?od = "map (\<lambda>k. (k, g k)) ks"
  have vals: "dict_values ?od = map g ks" and ks: "dict_keys ?od = ks"
    by (simp_all add: dict_values_def dict_keys_def comp_def)
  have it: "iter_all (dict_values ?od) = Inr (map t ks)"
    using assms(3) by (simp add: vals iter_all_map)
  have lens: "set (map length (map t ks)) = (\<lambda>k. length (t k)) ` set ks"
    by auto
  have zs: "zip_star (map t ks) =
              map (\<lambda>i. map (\<lambda>k. t k ! i) ks) [0..<Min ((\<lambda>k. length (t k)) ` set ks)]"
    using assms(2) by (simp add: zip_star_eq lens comp_def)
  have pairs: "dict_of_pairs (zip ks (map (\<lambda>k. t k ! i) ks)) = map (\<lambda>k. (k, t k ! i)) ks" for i
  proof -
    have z: "zip ks (map (\<lambda>k. t k ! i) ks) = map (\<lambda>k. (k, t k ! i)) ks"
      by (induction ks) auto
    have "distinct (map fst (map (\<lambda>k. (k, t k ! i)) ks))"
      using assms(1) by (simp add: comp_def)
    then show ?thesis by (simp add: z dict_of_pairs_distinct)
  qed
  show ?thesis
    by (simp add: dict_of_list_to_list_of_dict_def it ks zs comp_def pairs)
qed

lemma dict_io_all_ok:
  assumes "distinct (dict_keys d)" and "d \<noteq> []"
    and "\<forall>k\<in>set (dict_keys d). func (row (d # ds) k) = Inr (g k)"
  shows "dict_io func (d # ds) lg =
           (if is_tuple (g (last (dict_keys d)))
            then (case dict_of_list_to_list_of_dict (map (\<lambda>k. (k, g k)) (dict_keys d)) of
                    Inl e \<Rightarrow> Inl e
                  | Inr ms \<Rightarrow> Inr (Out_tuple ms))
            else Inr (Out_dict (map (\<lambda>k. (k, g k)) (dict_keys d))),
            lg @ map (\<lambda>k. Info_key_out k (g k)) (dict_keys d))"
proof -
  let ?ks = "dict_keys d"
  from assms(2) have ne: "?ks \<noteq> []" by (simp add: dict_keys_def)
  have od: "fold (\<lambda>k d. dict_set d k (g k)) ?ks [] = map (\<lambda>k. (k, g k)) ?ks"
    using fold_dict_set_fresh [OF assms(1), of "[]" g] by simp
  show ?thesis
    using ne
    by (simp add: dict_io_def dict_io_loop_all_ok [OF assms(3)] od dict_getitem_last
        split: sum.splits)
qed

section \<open>Properties of the timing decorator\<close>

text \<open>
  C5. Transparency of the timing decorator. Whatever the callable, its arguments and the
  world it is called in, the call wrapped by \<open>log_time\<close> returns the value the callable
  returns and raises the error the callable raises, unchanged. When the callable raises,
  the wrapped call does exactly what the callable does, and nothing is logged; when it
  returns, the only further effect is one log record, with the name of the callable,
  the rendered duration and the elapsed seconds.
\<close>

theorem log_time_transparent:
  "fst (log_time func args w) = fst (call func args w) \<and>
   (case call func args w of
      (Inl e, w1) \<Rightarrow> log_time func args w = (Inl e, w1)
    | (Inr result, w1) \<Rightarrow>
        log_time func args w =
          (Inr result,
           w1\<lparr>records := records w1 @
             [Info_took (func_full_name func)
                (human_readable_time (float_sub (clock w1) (clock w)))
                (float_sub (clock w1) (clock w))]\<rparr>))"
  by (auto simp: log_time_def Let_def split: prod.splits sum.splits)

text \<open>
  A callable that takes 65 seconds and returns its argument plus one, and one that raises
  after 65 seconds.
\<close>

theorem log_time_transparent_examples:
  "log_time \<lparr>qualname = Some ''f'', repr = ''<function f>'',
              call = (\<lambda>x w. (Inr (x + 1 :: int), w\<lparr>clock := clock w + 65\<rparr>))\<rparr>
     (41 :: int) \<lparr>clock = 1000, records = ([] :: string log_record list)\<rparr> =
     (Inr 42, \<lparr>clock = 1065, records = [Info_took ''f'' ''1m05s'' 65]\<rparr>) \<and>
   log_time \<lparr>qualname = Some ''g'', repr = ''<function g>'',
              call = (\<lambda>x w. (Inl (Raised ''boom'') :: py_error + int, w\<lparr>clock := clock w + 65\<rparr>))\<rparr>
     (41 :: int) \<lparr>clock = 1000, records = ([] :: string log_record list)\<rparr> =
     (Inl (Raised ''boom''), \<lparr>clock = 1065, records = []\<rparr>)"
proof -
  have sub: "float_sub 1065 1000 = 65"
    by (simp add: float_sub_def round_double_eval)
  have hrt: "human_readable_time 65 = ''1m05s''"
    by (simp add: human_readable_time_below_hour dec.simps digit_def two_digits_def)
  show ?thesis
    using log_time_transparent [of "\<lparr>qualname = Some ''f'', repr = ''<function f>'',
          call = (\<lambda>x w. (Inr (x + 1 :: int), w\<lparr>clock := clock w + 65\<rparr>))\<rparr>"
        "41 :: int" "\<lparr>clock = 1000, records = ([] :: string log_record list)\<rparr>"]
      log_time_transparent [of "\<lparr>qualname = Some ''g'', repr = ''<function g>'',
          call = (\<lambda>x w. (Inl (Raised ''boom'') :: py_error + int, w\<lparr>clock := clock w + 65\<rparr>))\<rparr>"
        "41 :: int" "\<lparr>clock = 1000, records = ([] :: string log_record list)\<rparr>"]
    by (simp add: sub hrt func_full_name_def)
qed

text \<open>
  C6. Rendering of a duration. For every float \<open>elapsed\<close> that is not negative, the first
  rule that applies gives the text. From 3600 seconds on: hours, then minutes and
  seconds with two digits each, as \<^verbatim>\<open>{h}h{mm}m{ss}s\<close>, with at least one hour, minutes
  and seconds below 60, the seconds being the whole seconds modulo 60; below \<open>2 ^ 53\<close>
  seconds the hours and minutes are those of the whole seconds too (beyond, the floats
  of \<^verbatim>\<open>divmod\<close> are rounded). From 60 seconds to below 3600: minutes, then seconds with
  two digits, as \<^verbatim>\<open>{m}m{ss}s\<close>. From 1 second to below 60: the seconds rounded to two
  decimal places, then \<^verbatim>\<open>s\<close>. Below 1 second: the whole number nearest to the product
  with 1000.0, then \<^verbatim>\<open>ms\<close>.
\<close>

theorem human_readable_time_rendering:
  assumes "0 \<le> elapsed"
  shows "(3600 \<le> elapsed \<longrightarrow>
            (\<exists>h m. 1 \<le> h \<and> m < 60 \<and>
               human_readable_time elapsed =
                 dec h @ ''h'' @ two_digits m @ ''m'' @
                 two_digits (nat \<lfloor>elapsed\<rfloor> mod 60) @ ''s'' \<and>
               (elapsed < 2 ^ 53 \<longrightarrow>
                  h = nat \<lfloor>elapsed\<rfloor> div 3600 \<and> m = nat \<lfloor>elapsed\<rfloor> div 60 mod 60))) \<and>
         (60 \<le> elapsed \<and> elapsed < 3600 \<longrightarrow>
            human_readable_time elapsed =
              dec (nat \<lfloor>elapsed\<rfloor> div 60) @ ''m'' @
              two_digits (nat \<lfloor>elapsed\<rfloor> mod 60) @ ''s'') \<and>
         (1 \<le> elapsed \<and> elapsed < 60 \<longrightarrow>
            human_readable_time elapsed =
              dec (nat (round_half_even (elapsed * 100)) div 100) @ ''.'' @
              two_digits (nat (round_half_even (elapsed * 100)) mod 100) @ ''s'') \<and>
         (elapsed < 1 \<longrightarrow>
            human_readable_time elapsed =
              dec (nat (round_half_even (float_mul elapsed 1000))) @ ''ms'')"
proof (intro conjI impI)
  assume "3600 \<le> elapsed"
  then show "\<exists>h m. 1 \<le> h \<and> m < 60 \<and>
      human_readable_time elapsed =
        dec h @ ''h'' @ two_digits m @ ''m'' @ two_digits (nat \<lfloor>elapsed\<rfloor> mod 60) @ ''s'' \<and>
      (elapsed < 2 ^ 53 \<longrightarrow>
         h = nat \<lfloor>elapsed\<rfloor> div 3600 \<and> m = nat \<lfloor>elapsed\<rfloor> div 60 mod 60)"
    by (rule human_readable_time_hours)
next
  assume "60 \<le> elapsed \<and> elapsed < 3600"
  then show "human_readable_time elapsed =
      dec (nat \<lfloor>elapsed\<rfloor> div 60) @ ''m'' @ two_digits (nat \<lfloor>elapsed\<rfloor> mod 60) @ ''s''"
    by (simp add: human_readable_time_below_hour)
next
  assume a: "1 \<le> elapsed \<and> elapsed < 60"
  with assms show "human_readable_time elapsed =
      dec (nat (round_half_even (elapsed * 100)) div 100) @ ''.'' @
      two_digits (nat (round_half_even (elapsed * 100)) mod 100) @ ''s''"
    by (simp add: human_readable_time_below_minute fmt_f_two_places)
next
  assume a: "elapsed < 1"
  from assms have "of_int 0 \<le> elapsed * 1000" by simp
  then have "of_int 0 \<le> round_double (elapsed * 1000)"
    by (intro round_double_ge) simp_all
  then have "0 \<le> float_mul elapsed 1000" by (simp add: float_mul_def)
  with assms a show "human_readable_time elapsed =
      dec (nat (round_half_even (float_mul elapsed 1000))) @ ''ms''"
    by (simp add: human_readable_time_below_minute fmt_f_no_places)
qed

text \<open>
  The examples of the specification: the float \<^verbatim>\<open>0.4\<close> gives \<^verbatim>\<open>400ms\<close>, \<^verbatim>\<open>1.0\<close> gives
  \<^verbatim>\<open>1.00s\<close>, \<^verbatim>\<open>65.0\<close> gives \<^verbatim>\<open>1m05s\<close> and \<^verbatim>\<open>3661.0\<close> gives \<^verbatim>\<open>1h01m01s\<close>.
\<close>

theorem human_readable_time_examples:
  "human_readable_time (round_double (2 / 5)) = ''400ms'' \<and>
   human_readable_time 1 = ''1.00s'' \<and>
   human_readable_time 65 = ''1m05s'' \<and>
   human_readable_time 3661 = ''1h01m01s''"
proof -
  have d04: "round_double (2 / 5) = 3602879701896397 / 9007199254740992"
    by (simp add: round_double_eval)
  have ms: "float_mul (3602879701896397 / 9007199254740992) 1000 = 400"
    by (simp add: float_mul_def round_double_eval)
  have a: "human_readable_time (round_double (2 / 5)) = ''400ms''"
    using human_readable_time_rendering [of "3602879701896397 / 9007199254740992"]
    by (simp add: d04 ms round_half_even_def dec.simps digit_def)
  have b: "human_readable_time 1 = ''1.00s''"
    using human_readable_time_rendering [of 1]
    by (simp add: round_half_even_def dec.simps digit_def two_digits_def)
  have c: "human_readable_time 65 = ''1m05s''"
    using human_readable_time_rendering [of 65]
    by (simp add: dec.simps digit_def two_digits_def)
  have d: "human_readable_time 3661 = ''1h01m01s''"
    using human_readable_time_rendering [of 3661]
    by (auto simp: dec.simps digit_def two_digits_def)
  from a b c d show ?thesis by simp
qed

section \<open>Properties of the memory profiling decorator\<close>

text \<open>
  C8. Availability of \<open>mem_profile\<close>. In the module as loaded, \<open>mem_profile\<close> is bound
  exactly when \<^verbatim>\<open>find_spec\<close> discovers the package \<^verbatim>\<open>memory_profiler\<close> at load time, and
  reaching for it raises \<^verbatim>\<open>AttributeError\<close> exactly when the package is not discovered.
  Without the package the module still loads; with it, the module loads and binds
  \<open>mem_profile\<close> once the import of the package succeeds.
\<close>

theorem mem_profile_gated:
  "(load_module env = Inr ns \<longrightarrow>
      (''mem_profile'' \<in> set ns) = find_spec env ''memory_profiler'' \<and>
      (module_getattr ns ''mem_profile'' = Inl AttributeError) = (\<not> find_spec env ''memory_profiler'')) \<and>
   ((\<forall>m\<in>set standard_library. importable env m) \<and> \<not> find_spec env ''memory_profiler'' \<longrightarrow>
      (\<exists>ns. load_module env = Inr ns \<and> module_getattr ns ''mem_profile'' = Inl AttributeError)) \<and>
   ((\<forall>m\<in>set standard_library. importable env m) \<and> find_spec env ''memory_profiler'' \<and>
    importable env ''memory_profiler'' \<longrightarrow>
      (\<exists>ns. load_module env = Inr ns \<and> module_getattr ns ''mem_profile'' = Inr ''mem_profile''))"
  by (auto simp: load_module_def decorators_module_def module_getattr_def standard_library_def
      split: if_splits)

text \<open>
  An environment with the standard library only, and one where every package is found
  and can be imported.
\<close>

theorem mem_profile_gated_examples:
  "(\<exists>ns. load_module \<lparr>find_spec = (\<lambda>m. False), importable = (\<lambda>m. m \<in> set standard_library)\<rparr> = Inr ns \<and>
      module_getattr ns ''mem_profile'' = Inl AttributeError \<and>
      module_getattr ns ''log_time'' = Inr ''log_time'') \<and>
   (\<exists>ns. load_module \<lparr>find_spec = (\<lambda>m. True), importable = (\<lambda>m. True)\<rparr> = Inr ns \<and>
      module_getattr ns ''mem_profile'' = Inr ''mem_profile'')"
  using mem_profile_gated [of "\<lparr>find_spec = (\<lambda>m. False), importable = (\<lambda>m. m \<in> set standard_library)\<rparr>"]
    mem_profile_gated [of "\<lparr>find_spec = (\<lambda>m. True), importable = (\<lambda>m. True)\<rparr>"]
  by (auto simp: module_getattr_def load_module_def decorators_module_def standard_library_def)

section \<open>Properties of the row/column adapter\<close>

text \<open>
  C1. Transpose branch. For a non-empty first mapping, if the callable returns for every
  key a tuple of the same length \<open>n\<close>, the adapted callable returns a tuple of \<open>n\<close>
  mappings; the mapping at position \<open>i\<close> sends every key to element \<open>i\<close> of that
  key's tuple, the keys in the iteration order of the first mapping.
\<close>

theorem dict_io_transpose:
  assumes "distinct (dict_keys d)" and "d \<noteq> []"
    and "\<forall>k\<in>set (dict_keys d). func (row (d # ds) k) = Inr (PTuple (t k)) \<and> length (t k) = n"
  shows "dict_io func (d # ds) lg =
           (Inr (Out_tuple (map (\<lambda>i. map (\<lambda>k. (k, t k ! i)) (dict_keys d)) [0..<n])),
            lg @ map (\<lambda>k. Info_key_out k (PTuple (t k))) (dict_keys d))"
proof -
  let ?ks = "dict_keys d"
  from assms(2) have ne: "?ks \<noteq> []" by (simp add: dict_keys_def)
  have ok: "\<forall>k\<in>set ?ks. func (row (d # ds) k) = Inr (PTuple (t k))"
    using assms(3) by simp
  have it: "\<forall>k\<in>set ?ks. py_iter (PTuple (t k)) = Inr (t k)"
    by simp
  have "(\<lambda>k. length (t k)) ` set ?ks = {n}"
  proof -
    from ne obtain k0 where "k0 \<in> set ?ks" by (cases ?ks) auto
    with assms(3) show ?thesis by (auto simp: image_iff)
  qed
  then have mn: "Min ((\<lambda>k. length (t k)) ` set ?ks) = n"
    by simp
  show ?thesis
    by (simp add: dict_io_all_ok [OF assms(1,2) ok]
        dict_of_list_to_list_of_dict_iterables [OF assms(1) ne it] mn)
qed

text \<open>
  The example of the specification: \<^verbatim>\<open>f(x) = (x, x*2)\<close> on \<^verbatim>\<open>{"a": 1, "b": 2}\<close> gives
  \<^verbatim>\<open>({"a": 1, "b": 2}, {"a": 2, "b": 4})\<close>.
\<close>

theorem dict_io_transpose_example:
  "distinct (dict_keys [(''a'', PInt 1), (''b'', PInt 2)]) \<and>
   [(''a'', PInt 1), (''b'', PInt 2)] \<noteq> [] \<and>
   pair_with_double (row [[(''a'', PInt 1), (''b'', PInt 2)]] ''a'') = Inr (PTuple [PInt 1, PInt 2]) \<and>
   pair_with_double (row [[(''a'', PInt 1), (''b'', PInt 2)]] ''b'') = Inr (PTuple [PInt 2, PInt 4]) \<and>
   dict_io pair_with_double [[(''a'', PInt 1), (''b'', PInt 2)]] [] =
     (Inr (Out_tuple [[(''a'', PInt 1), (''b'', PInt 2)], [(''a'', PInt 2), (''b'', PInt 4)]]),
      [Info_key_out ''a'' (PTuple [PInt 1, PInt 2]), Info_key_out ''b'' (PTuple [PInt 2, PInt 4])])"
  using dict_io_transpose [of "[(''a'', PInt 1), (''b'', PInt 2)]" pair_with_double "[]"
      "\<lambda>k. if k = ''a'' then [PInt 1, PInt 2] else [PInt 2, PInt 4]" 2 "[]"]
  by (simp add: dict_keys_def row_def dict_get_def upt_rec numeral_2_eq_2)

text \<open>
  C2. Scalar branch. For a non-empty first mapping, if no per-key result is a tuple, the
  adapted callable returns the mapping from each key to the callable's result on the
  values found at that key in every input mapping, in the key order of the first
  mapping.
\<close>

theorem dict_io_scalar:
  assumes "distinct (dict_keys d)" and "d \<noteq> []"
    and "\<forall>k\<in>set (dict_keys d). func (row (d # ds) k) = Inr (g k) \<and> \<not> is_tuple (g k)"
  shows "dict_io func (d # ds) lg =
           (Inr (Out_dict (map (\<lambda>k. (k, g k)) (dict_keys d))),
            lg @ map (\<lambda>k. Info_key_out k (g k)) (dict_keys d))"
proof -
  from assms(2) have "dict_keys d \<noteq> []"
    by (simp add: dict_keys_def)
  then have "last (dict_keys d) \<in> set (dict_keys d)"
    by (rule last_in_set)
  with assms(3) have scalar: "\<not> is_tuple (g (last (dict_keys d)))" by blast
  from assms(3) have ok: "\<forall>k\<in>set (dict_keys d). func (row (d # ds) k) = Inr (g k)"
    by simp
  show ?thesis
    by (simp add: dict_io_all_ok [OF assms(1,2) ok] scalar)
qed

text \<open>
  The examples of the specification: \<^verbatim>\<open>f(x) = x * 2\<close> on \<^verbatim>\<open>{"a": 1, "b": 2}\<close> gives
  \<^verbatim>\<open>{"a": 2, "b": 4}\<close>, and \<^verbatim>\<open>f(x, y) = x + y\<close> on \<^verbatim>\<open>{"a": 1}\<close> and \<^verbatim>\<open>{"a": 10}\<close> gives
  \<^verbatim>\<open>{"a": 11}\<close>.
\<close>

theorem dict_io_scalar_examples:
  "distinct (dict_keys [(''a'', PInt 1), (''b'', PInt 2)]) \<and>
   double (row [[(''a'', PInt 1), (''b'', PInt 2)]] ''a'') = Inr (PInt 2) \<and>
   double (row [[(''a'', PInt 1), (''b'', PInt 2)]] ''b'') = Inr (PInt 4) \<and>
   dict_io double [[(''a'', PInt 1), (''b'', PInt 2)]] [] =
     (Inr (Out_dict [(''a'', PInt 2), (''b'', PInt 4)]),
      [Info_key_out ''a'' (PInt 2), Info_key_out ''b'' (PInt 4)]) \<and>
   distinct (dict_keys [(''a'', PInt 1)]) \<and>
   add2 (row [[(''a'', PInt 1)], [(''a'', PInt 10)]] ''a'') = Inr (PInt 11) \<and>
   dict_io add2 [[(''a'', PInt 1)], [(''a'', PInt 10)]] [] =
     (Inr (Out_dict [(''a'', PInt 11)]), [Info_key_out ''a'' (PInt 11)])"
  using dict_io_scalar [of "[(''a'', PInt 1), (''b'', PInt 2)]" double "[]"
      "\<lambda>k. if k = ''a'' then PInt 2 else PInt 4" "[]"]
    dict_io_scalar [of "[(''a'', PInt 1)]" add2 "[[(''a'', PInt 10)]]" "\<lambda>k. PInt 11" "[]"]
  by (simp add: dict_keys_def row_def dict_get_def)

text \<open>
  C3. Error atomicity. If the callable raises for some key, the adapted callable raises
  too and returns nothing: the error is the one the callable raised at the first key
  where it fails (the loop stops there), so it is the error \<open>e\<close> of the failing key
  whenever no other key fails differently. By then one record has been logged for each
  key before the failing one.
\<close>

theorem dict_io_error_atomic:
  assumes "k \<in> set (dict_keys d)" and "func (row (d # ds) k) = Inl e"
  shows "\<exists>pre k' post e' g.
           dict_keys d = pre @ k' # post \<and>
           (\<forall>p\<in>set pre. func (row (d # ds) p) = Inr (g p)) \<and>
           func (row (d # ds) k') = Inl e' \<and>
           dict_io func (d # ds) lg = (Inl e', lg @ map (\<lambda>p. Info_key_out p (g p)) pre) \<and>
           ((\<forall>p\<in>set (dict_keys d). \<forall>e''. func (row (d # ds) p) = Inl e'' \<longrightarrow> e'' = e) \<longrightarrow> e' = e)"
proof -
  let ?fails = "\<lambda>p. \<exists>e'. func (row (d # ds) p) = Inl e'"
  from assms have "\<exists>p\<in>set (dict_keys d). ?fails p" by blast
  then obtain pre k' post where split: "dict_keys d = pre @ k' # post"
    and fails: "?fails k'" and before: "\<forall>p\<in>set pre. \<not> ?fails p"
    by (auto dest!: split_list_first_prop)
  from fails obtain e' where e': "func (row (d # ds) k') = Inl e'" by blast
  define g where "g p = projr (func (row (d # ds) p))" for p
  have ok: "\<forall>p\<in>set pre. func (row (d # ds) p) = Inr (g p)"
  proof
    fix p assume "p \<in> set pre"
    with before have "\<not> ?fails p" by blast
    then show "func (row (d # ds) p) = Inr (g p)"
      by (cases "func (row (d # ds) p)") (simp_all add: g_def)
  qed
  have "dict_io func (d # ds) lg = (Inl e', lg @ map (\<lambda>p. Info_key_out p (g p)) pre)"
    by (simp add: dict_io_def split dict_io_loop_first_failure [OF ok e'])
  moreover have "k' \<in> set (dict_keys d)" using split by simp
  ultimately show ?thesis using split ok e' by blast
qed

text \<open>
  \<^verbatim>\<open>f(x, y) = x + y\<close> on \<^verbatim>\<open>{"a": 1, "b": 2}\<close> and \<^verbatim>\<open>{"a": 10, "b": "x"}\<close>: the call for
  \<^verbatim>\<open>"b"\<close> raises \<^verbatim>\<open>TypeError\<close>, and so does the adapted callable, although \<^verbatim>\<open>"a"\<close> had
  a result.
\<close>

theorem dict_io_error_atomic_example:
  "''b'' \<in> set (dict_keys [(''a'', PInt 1), (''b'', PInt 2)]) \<and>
   add2 (row [[(''a'', PInt 1), (''b'', PInt 2)], [(''a'', PInt 10), (''b'', PStr ''x'')]] ''b'') = Inl TypeError \<and>
   add2 (row [[(''a'', PInt 1), (''b'', PInt 2)], [(''a'', PInt 10), (''b'', PStr ''x'')]] ''a'') = Inr (PInt 11) \<and>
   fst (dict_io add2 [[(''a'', PInt 1), (''b'', PInt 2)], [(''a'', PInt 10), (''b'', PStr ''x'')]] []) = Inl TypeError"
proof -
  let ?d = "[(''a'', PInt 1), (''b'', PInt 2)]"
  let ?e = "[(''a'', PInt 10), (''b'', PStr ''x'')]"
  have b: "''b'' \<in> set (dict_keys ?d)" by (simp add: dict_keys_def)
  have fb: "add2 (row [?d, ?e] ''b'') = Inl TypeError" by (simp add: row_def dict_get_def)
  have fa: "add2 (row [?d, ?e] ''a'') = Inr (PInt 11)" by (simp add: row_def dict_get_def)
  have only: "\<forall>p\<in>set (dict_keys ?d). \<forall>e''. add2 (row [?d, ?e] p) = Inl e'' \<longrightarrow> e'' = TypeError"
    by (simp add: dict_keys_def row_def dict_get_def)
  from dict_io_error_atomic [of "''b''" ?d add2 "[?e]" TypeError "[]", OF b fb]
  obtain e' lg' where "dict_io add2 [?d, ?e] [] = (Inl e', lg')"
    and "(\<forall>p\<in>set (dict_keys ?d). \<forall>e''. add2 (row [?d, ?e] p) = Inl e'' \<longrightarrow> e'' = TypeError)
      \<longrightarrow> e' = TypeError"
    by blast
  with only have "fst (dict_io add2 [?d, ?e] []) = Inl TypeError" by simp
  with b fb fa show ?thesis by blast
qed

text \<open>
  C4, amended. Branch selection by the last key, and the other results. When the callable
  returns for every key of a non-empty first mapping: if the result of the last key is
  not a tuple, the mapping from key to result is returned, whatever the earlier keys
  produced. If it is a tuple, no mapping is returned; what comes back then depends on
  the other results too: the tuple of mappings when every per-key result can be iterated
  over, and \<^verbatim>\<open>TypeError\<close>, raised by \<^verbatim>\<open>zip\<close>, when some per-key result cannot (an integer
  or \<^verbatim>\<open>None\<close>). In each case one record per key has been logged.
\<close>

theorem dict_io_branch_by_last_key_and_iterability:
  assumes "distinct (dict_keys d)" and "d \<noteq> []"
    and "\<forall>k\<in>set (dict_keys d). func (row (d # ds) k) = Inr (g k)"
  shows "(\<not> is_tuple (g (last (dict_keys d))) \<longrightarrow>
            dict_io func (d # ds) lg =
              (Inr (Out_dict (map (\<lambda>k. (k, g k)) (dict_keys d))),
               lg @ map (\<lambda>k. Info_key_out k (g k)) (dict_keys d))) \<and>
         (is_tuple (g (last (dict_keys d))) \<longrightarrow>
            (\<forall>m. fst (dict_io func (d # ds) lg) \<noteq> Inr (Out_dict m))) \<and>
         (is_tuple (g (last (dict_keys d))) \<and>
          (\<forall>k\<in>set (dict_keys d). py_iter (g k) = Inr (t k)) \<longrightarrow>
            dict_io func (d # ds) lg =
              (Inr (Out_tuple (map (\<lambda>i. map (\<lambda>k. (k, t k ! i)) (dict_keys d))
                                 [0..<Min ((\<lambda>k. length (t k)) ` set (dict_keys d))])),
               lg @ map (\<lambda>k. Info_key_out k (g k)) (dict_keys d))) \<and>
         (is_tuple (g (last (dict_keys d))) \<and>
          (\<exists>k\<in>set (dict_keys d). \<exists>e. py_iter (g k) = Inl e) \<longrightarrow>
            dict_io func (d # ds) lg =
              (Inl TypeError, lg @ map (\<lambda>k. Info_key_out k (g k)) (dict_keys d)))"
proof (intro conjI impI)
  assume "\<not> is_tuple (g (last (dict_keys d)))"
  then show "dict_io func (d # ds) lg =
      (Inr (Out_dict (map (\<lambda>k. (k, g k)) (dict_keys d))),
       lg @ map (\<lambda>k. Info_key_out k (g k)) (dict_keys d))"
    by (simp add: dict_io_all_ok [OF assms])
next
  assume "is_tuple (g (last (dict_keys d)))"
  then show "\<forall>m. fst (dict_io func (d # ds) lg) \<noteq> Inr (Out_dict m)"
    by (simp add: dict_io_all_ok [OF assms] split: sum.splits)
next
  assume a: "is_tuple (g (last (dict_keys d))) \<and>
    (\<forall>k\<in>set (dict_keys d). py_iter (g k) = Inr (t k))"
  then have t: "\<forall>k\<in>set (dict_keys d). py_iter (g k) = Inr (t k)" by simp
  from assms(2) have ne: "dict_keys d \<noteq> []" by (simp add: dict_keys_def)
  from a show "dict_io func (d # ds) lg =
      (Inr (Out_tuple (map (\<lambda>i. map (\<lambda>k. (k, t k ! i)) (dict_keys d))
                         [0..<Min ((\<lambda>k. length (t k)) ` set (dict_keys d))])),
       lg @ map (\<lambda>k. Info_key_out k (g k)) (dict_keys d))"
    by (simp add: dict_io_all_ok [OF assms]
        dict_of_list_to_list_of_dict_iterables [OF assms(1) ne t])
next
  assume a: "is_tuple (g (last (dict_keys d))) \<and>
    (\<exists>k\<in>set (dict_keys d). \<exists>e. py_iter (g k) = Inl e)"
  then obtain k e where k: "k \<in> set (dict_keys d)" and e: "py_iter (g k) = Inl e"
    by blast
  from a show "dict_io func (d # ds) lg =
      (Inl TypeError, lg @ map (\<lambda>k. Info_key_out k (g k)) (dict_keys d))"
    by (simp add: dict_io_all_ok [OF assms]
        dict_of_list_to_list_of_dict_not_iterable [of k "dict_keys d" g e, OF k e])
qed

text \<open>
  \<^verbatim>\<open>lambda x: x if x == 1 else (x, x)\<close> on \<^verbatim>\<open>{"b": 2, "a": 1}\<close>: the last result is the
  integer, and the mapping is returned although the first result is a tuple.
  \<^verbatim>\<open>lambda x: (x, x)\<close> on \<^verbatim>\<open>{"a": 1, "b": 2}\<close>: all results are tuples, and the tuple of
  mappings is returned. \<^verbatim>\<open>lambda x: x if x == 1 else (x, x)\<close> on \<^verbatim>\<open>{"a": 1, "b": 2}\<close>: the
  last result is a tuple and the first an integer, and \<^verbatim>\<open>TypeError\<close> is raised.
\<close>

theorem dict_io_branch_by_last_key_and_iterability_examples:
  "dict_io scalar_or_pair [[(''b'', PInt 2), (''a'', PInt 1)]] [] =
     (Inr (Out_dict [(''b'', PTuple [PInt 2, PInt 2]), (''a'', PInt 1)]),
      [Info_key_out ''b'' (PTuple [PInt 2, PInt 2]), Info_key_out ''a'' (PInt 1)]) \<and>
   dict_io pair_twice [[(''a'', PInt 1), (''b'', PInt 2)]] [] =
     (Inr (Out_tuple [[(''a'', PInt 1), (''b'', PInt 2)], [(''a'', PInt 1), (''b'', PInt 2)]]),
      [Info_key_out ''a'' (PTuple [PInt 1, PInt 1]), Info_key_out ''b'' (PTuple [PInt 2, PInt 2])]) \<and>
   dict_io scalar_or_pair [[(''a'', PInt 1), (''b'', PInt 2)]] [] =
     (Inl TypeError,
      [Info_key_out ''a'' (PInt 1), Info_key_out ''b'' (PTuple [PInt 2, PInt 2])])"
proof -
  let ?g = "\<lambda>k. if k = ''a'' then PInt 1 else PTuple [PInt 2, PInt 2]"
  let ?h = "\<lambda>k. if k = ''a'' then PTuple [PInt 1, PInt 1] else PTuple [PInt 2, PInt 2]"
  let ?t = "\<lambda>k. if k = ''a'' then [PInt 1, PInt 1] else [PInt 2, PInt 2]"
  have a: "dict_io scalar_or_pair [[(''b'', PInt 2), (''a'', PInt 1)]] [] =
      (Inr (Out_dict [(''b'', PTuple [PInt 2, PInt 2]), (''a'', PInt 1)]),
       [Info_key_out ''b'' (PTuple [PInt 2, PInt 2]), Info_key_out ''a'' (PInt 1)])"
    using dict_io_branch_by_last_key_and_iterability
      [of "[(''b'', PInt 2), (''a'', PInt 1)]" scalar_or_pair "[]" ?g "[]" ?t]
    by (simp add: dict_keys_def row_def dict_get_def)
  have b: "dict_io pair_twice [[(''a'', PInt 1), (''b'', PInt 2)]] [] =
      (Inr (Out_tuple [[(''a'', PInt 1), (''b'', PInt 2)], [(''a'', PInt 1), (''b'', PInt 2)]]),
       [Info_key_out ''a'' (PTuple [PInt 1, PInt 1]), Info_key_out ''b'' (PTuple [PInt 2, PInt 2])])"
    using dict_io_branch_by_last_key_and_iterability
      [of "[(''a'', PInt 1), (''b'', PInt 2)]" pair_twice "[]" ?h "[]" ?t]
    by (simp add: dict_keys_def row_def dict_get_def upt_rec numeral_2_eq_2)
  have c: "dict_io scalar_or_pair [[(''a'', PInt 1), (''b'', PInt 2)]] [] =
      (Inl TypeError,
       [Info_key_out ''a'' (PInt 1), Info_key_out ''b'' (PTuple [PInt 2, PInt 2])])"
    using dict_io_branch_by_last_key_and_iterability
      [of "[(''a'', PInt 1), (''b'', PInt 2)]" scalar_or_pair "[]" ?g "[]" ?t]
    by (simp add: dict_keys_def row_def dict_get_def)
  from a b c show ?thesis by simp
qed

text \<open>
  C4 as stated does not hold: the result of the last key alone does not determine
  whether a mapping or a tuple of mappings is returned. On \<^verbatim>\<open>{"a": 1, "b": 2}\<close> the two
  callables give the same tuple \<^verbatim>\<open>(2, 2)\<close> for the last key \<^verbatim>\<open>"b"\<close>; with
  \<^verbatim>\<open>lambda x: (x, x)\<close> the tuple of mappings is returned, and with
  \<^verbatim>\<open>lambda x: x if x == 1 else (x, x)\<close>, whose result for the earlier key \<^verbatim>\<open>"a"\<close> is the
  integer \<^verbatim>\<open>1\<close>, \<^verbatim>\<open>zip\<close> raises \<^verbatim>\<open>TypeError\<close> and neither is returned.
\<close>

theorem dict_io_branch_not_by_last_key_alone:
  "scalar_or_pair (row [[(''a'', PInt 1), (''b'', PInt 2)]] ''b'') = Inr (PTuple [PInt 2, PInt 2]) \<and>
   pair_twice (row [[(''a'', PInt 1), (''b'', PInt 2)]] ''b'') = Inr (PTuple [PInt 2, PInt 2]) \<and>
   last (dict_keys [(''a'', PInt 1), (''b'', PInt 2)]) = ''b'' \<and>
   fst (dict_io scalar_or_pair [[(''a'', PInt 1), (''b'', PInt 2)]] []) = Inl TypeError \<and>
   fst (dict_io pair_twice [[(''a'', PInt 1), (''b'', PInt 2)]] []) =
     Inr (Out_tuple [[(''a'', PInt 1), (''b'', PInt 2)], [(''a'', PInt 1), (''b'', PInt 2)]])"
  by (simp add: dict_io_def dict_keys_def dict_values_def row_def dict_get_def dict_getitem_def
      dict_of_list_to_list_of_dict_def dict_of_pairs_def zip_star.simps)

text \<open>
  C7. Missing-key tolerance. When a mapping after the first lacks a key \<open>k\<close> of the first
  one, the lookup gives \<^verbatim>\<open>None\<close> and does not raise: the callable is called for \<open>k\<close>
  with as many arguments as there are mappings, \<^verbatim>\<open>None\<close> at the position of the mapping
  that lacks \<open>k\<close>. What the callable does with these arguments is the outcome: its
  error is the adapted callable's error, and its result is the entry of \<open>k\<close> in the
  returned mapping.
\<close>

theorem dict_io_missing_key_passes_None:
  assumes "distinct (dict_keys d)" and "dict_keys d = pre @ k # post"
    and "\<forall>p\<in>set pre. func (row (d # ds) p) = Inr (g p)"
    and "j < length ds" and "map_of (ds ! j) k = None"
  shows "length (row (d # ds) k) = Suc (length ds) \<and>
         row (d # ds) k ! Suc j = PNone \<and>
         (\<forall>e. func (row (d # ds) k) = Inl e \<longrightarrow> fst (dict_io func (d # ds) lg) = Inl e) \<and>
         ((\<forall>p\<in>set (k # post). func (row (d # ds) p) = Inr (g p)) \<and>
          \<not> is_tuple (g (last (k # post))) \<longrightarrow>
            (\<exists>m. fst (dict_io func (d # ds) lg) = Inr (Out_dict m) \<and>
                 dict_getitem m k = func (row (d # ds) k)))"
proof (intro conjI allI impI)
  show "length (row (d # ds) k) = Suc (length ds)"
    by (simp add: row_def)
  show "row (d # ds) k ! Suc j = PNone"
    using assms(4,5) by (simp add: row_def dict_get_def)
next
  fix e assume "func (row (d # ds) k) = Inl e"
  then show "fst (dict_io func (d # ds) lg) = Inl e"
    by (simp add: dict_io_def assms(2) dict_io_loop_first_failure [OF assms(3)])
next
  assume a: "(\<forall>p\<in>set (k # post). func (row (d # ds) p) = Inr (g p)) \<and>
    \<not> is_tuple (g (last (k # post)))"
  from assms(2) have ne: "d \<noteq> []" by (auto simp: dict_keys_def)
  from a assms(2,3) have ok: "\<forall>p\<in>set (dict_keys d). func (row (d # ds) p) = Inr (g p)"
    by auto
  let ?m = "map (\<lambda>k. (k, g k)) (dict_keys d)"
  from a assms(2) have "\<not> is_tuple (g (last (dict_keys d)))" by simp
  then have "fst (dict_io func (d # ds) lg) = Inr (Out_dict ?m)"
    by (simp add: dict_io_all_ok [OF assms(1) ne ok])
  moreover from assms(2) have "k \<in> set (dict_keys d)" by simp
  then have "map_of ?m k = Some (g k)"
    by (rule map_of_graph)
  then have "dict_getitem ?m k = func (row (d # ds) k)"
    using a by (simp add: dict_getitem_def)
  ultimately show "\<exists>m. fst (dict_io func (d # ds) lg) = Inr (Out_dict m) \<and>
      dict_getitem m k = func (row (d # ds) k)"
    by blast
qed

text \<open>
  \<^verbatim>\<open>lambda *a: list(a)\<close> shows the arguments it was called with: for \<^verbatim>\<open>"b"\<close>, missing in
  the second mapping, they are \<^verbatim>\<open>2\<close> and \<^verbatim>\<open>None\<close>; and \<^verbatim>\<open>lambda x, y: x + y\<close> raises
  \<^verbatim>\<open>TypeError\<close> on them.
\<close>

theorem dict_io_missing_key_passes_None_example:
  "map_of [(''a'', PInt 10)] ''b'' = None \<and>
   row [[(''a'', PInt 1), (''b'', PInt 2)], [(''a'', PInt 10)]] ''b'' = [PInt 2, PNone] \<and>
   (\<exists>m. fst (dict_io (\<lambda>a. Inr (PList a))
             [[(''a'', PInt 1), (''b'', PInt 2)], [(''a'', PInt 10)]] []) = Inr (Out_dict m) \<and>
        dict_getitem m ''b'' = Inr (PList [PInt 2, PNone])) \<and>
   fst (dict_io add2 [[(''a'', PInt 1), (''b'', PInt 2)], [(''a'', PInt 10)]] []) = Inl TypeError"
proof -
  let ?d = "[(''a'', PInt 1), (''b'', PInt 2)]"
  let ?e = "[(''a'', PInt 10)]"
  let ?f = "\<lambda>a. Inr (PList a) :: py_error + pyval"
  have h1: "distinct (dict_keys ?d)" and h2: "dict_keys ?d = [''a''] @ ''b'' # []"
    by (simp_all add: dict_keys_def)
  have h3: "\<forall>p\<in>set [''a'']. ?f (row (?d # [?e]) p) = Inr (PList (row [?d, ?e] p))"
    by simp
  have h3a: "\<forall>p\<in>set [''a'']. add2 (row (?d # [?e]) p) = Inr (PInt 11)"
    by (simp add: row_def dict_get_def)
  have h4: "0 < length [?e]" and h5: "map_of ([?e] ! 0) ''b'' = None"
    by simp_all
  have r: "row [?d, ?e] ''b'' = [PInt 2, PNone]"
    by (simp add: row_def dict_get_def)
  have "\<exists>m. fst (dict_io ?f [?d, ?e] []) = Inr (Out_dict m) \<and>
          dict_getitem m ''b'' = Inr (PList [PInt 2, PNone])"
    using dict_io_missing_key_passes_None [OF h1 h2 h3 h4 h5, of "[]"]
    by (simp add: r)
  moreover have "fst (dict_io add2 [?d, ?e] []) = Inl TypeError"
    using dict_io_missing_key_passes_None [OF h1 h2 h3a h4 h5, of "[]"]
    by (simp add: r)
  ultimately show ?thesis using r by simp
qed

text \<open>
  C9. Whatever the callable, \<open>dict_io\<close> applied to a first mapping without keys raises
  (the shape inspection after the loop reads the loop variable, which was never bound);
  it does not return an empty mapping, and nothing is logged.
\<close>

theorem dict_io_empty_first_mapping_raises:
  "dict_io func ([] # ds) lg = (Inl UnboundLocalError, lg)"
  by (simp add: dict_io_def dict_keys_def)

text \<open>
  C10. Tuples of differing lengths. When every per-key result is a tuple, the returned
  tuple has as many mappings as the shortest result has elements (the further elements
  of longer results are dropped), every returned mapping has all the keys, and the
  mapping at position \<open>i\<close> sends each key to element \<open>i\<close> of its result.
\<close>

theorem dict_io_ragged_tuples:
  assumes "distinct (dict_keys d)" and "d \<noteq> []"
    and "\<forall>k\<in>set (dict_keys d). func (row (d # ds) k) = Inr (PTuple (t k))"
  shows "\<exists>ms. fst (dict_io func (d # ds) lg) = Inr (Out_tuple ms) \<and>
           length ms = Min ((\<lambda>k. length (t k)) ` set (dict_keys d)) \<and>
           (\<forall>m\<in>set ms. dict_keys m = dict_keys d) \<and>
           (\<forall>i<length ms. ms ! i = map (\<lambda>k. (k, t k ! i)) (dict_keys d))"
proof -
  let ?ks = "dict_keys d"
  let ?ms = "map (\<lambda>i. map (\<lambda>k. (k, t k ! i)) ?ks) [0..<Min ((\<lambda>k. length (t k)) ` set ?ks)]"
  from assms(2) have ne: "?ks \<noteq> []" by (simp add: dict_keys_def)
  have it: "\<forall>k\<in>set ?ks. py_iter (PTuple (t k)) = Inr (t k)"
    by simp
  have "fst (dict_io func (d # ds) lg) = Inr (Out_tuple ?ms)"
    by (simp add: dict_io_all_ok [OF assms]
        dict_of_list_to_list_of_dict_iterables [OF assms(1) ne it])
  moreover have "length ?ms = Min ((\<lambda>k. length (t k)) ` set ?ks)"
    by simp
  moreover have "\<forall>m\<in>set ?ms. dict_keys m = ?ks"
    by (auto simp: dict_keys_def comp_def)
  moreover have "\<forall>i<length ?ms. ?ms ! i = map (\<lambda>k. (k, t k ! i)) ?ks"
    by simp
  ultimately show ?thesis by blast
qed

text \<open>
  \<^verbatim>\<open>lambda x: (x,) * x\<close> on \<^verbatim>\<open>{"a": 3, "b": 1, "c": 2}\<close> gives tuples of lengths 3, 1 and
  2, and the adapted callable returns the single mapping \<^verbatim>\<open>{"a": 3, "b": 1, "c": 2}\<close>.
\<close>

theorem dict_io_ragged_tuples_example:
  "fst (dict_io (\<lambda>a. case a of [PInt n] \<Rightarrow> py_mul_int (PTuple a) n | _ \<Rightarrow> Inl TypeError)
          [[(''a'', PInt 3), (''b'', PInt 1), (''c'', PInt 2)]] []) =
     Inr (Out_tuple [[(''a'', PInt 3), (''b'', PInt 1), (''c'', PInt 2)]])"
proof -
  let ?f = "\<lambda>a. case a of [PInt n] \<Rightarrow> py_mul_int (PTuple a) n | _ \<Rightarrow> Inl TypeError"
  let ?d = "[(''a'', PInt 3), (''b'', PInt 1), (''c'', PInt 2)]"
  let ?t = "\<lambda>k. if k = ''a'' then [PInt 3, PInt 3, PInt 3]
                 else if k = ''b'' then [PInt 1] else [PInt 2, PInt 2]"
  have 1: "distinct (dict_keys ?d)" and 2: "?d \<noteq> []"
    by (simp_all add: dict_keys_def)
  have 3: "\<forall>k\<in>set (dict_keys ?d). ?f (row (?d # []) k) = Inr (PTuple (?t k))"
    by (simp add: dict_keys_def row_def dict_get_def eval_nat_numeral)
  have mn: "Min ((\<lambda>k. length (?t k)) ` set (dict_keys ?d)) = 1"
    by (simp add: dict_keys_def)
  from dict_io_ragged_tuples [OF 1 2 3, of "[]"] obtain ms
    where ms: "fst (dict_io ?f [?d] []) = Inr (Out_tuple ms)"
      and len: "length ms = 1"
      and nth: "\<forall>i<length ms. ms ! i = map (\<lambda>k. (k, ?t k ! i)) (dict_keys ?d)"
    unfolding mn by blast
  from len nth have "ms ! 0 = map (\<lambda>k. (k, ?t k ! 0)) (dict_keys ?d)" by simp
  with len have "ms = [map (\<lambda>k. (k, ?t k ! 0)) (dict_keys ?d)]"
    by (cases ms) simp_all
  with ms show ?thesis by (simp add: dict_keys_def)
qed

end
